theory Spec2Isabelle
  imports Main "HOL-Library.AList" "HOL-Library.Char_ord" "HOL-Library.List_Lexorder"
    "HOL-Library.Multiset"
begin

section \<open>The shortest-path solver of plot.py\<close>

subsection \<open>Data model\<close>

text \<open>
  A Python dict is an association list in insertion order whose keys are distinct;
  \<open>map_of\<close> is the lookup and \<open>AList.update\<close> the assignment \<^verbatim>\<open>d[k] = v\<close>
  (an existing key keeps its place, a new key goes to the end). The graph is a dict from
  a vertex to the dict of its neighbours and their weights. A weight or a distance is a
  Python integer, as in \<^verbatim>\<open>grafo_exemplo\<close>, or \<^verbatim>\<open>float('infinity')\<close>; other floats are
  not modelled.
  Vertices are ordered, as the tuples on the heap are compared; strings are ordered
  lexicographically by their characters, as in Python.
\<close>

datatype dist = Fin int | Infinity

type_synonym 'v graph = "('v \<times> ('v \<times> dist) list) list"

datatype error = KeyError | OverflowError

type_synonym 'v dist_table = "('v \<times> dist) list"
type_synonym 'v path_table = "('v \<times> 'v list) list"

record 'v state =
  distancias :: "'v dist_table"
  caminhos :: "'v path_table"
  fila_prioridade :: "(int \<times> 'v) list"

text \<open>\<^verbatim>\<open>distancia < distancias[vizinho]\<close> and \<^verbatim>\<open>distancia_atual > distancias[vertice_atual]\<close>,
  an integer against a table entry.\<close>

fun dist_lt :: "int \<Rightarrow> dist \<Rightarrow> bool" where
  "dist_lt d (Fin e) = (d < e)"
| "dist_lt d Infinity = True"

fun dist_gt :: "int \<Rightarrow> dist \<Rightarrow> bool" where
  "dist_gt d (Fin e) = (d > e)"
| "dist_gt d Infinity = False"

text \<open>
  \<^verbatim>\<open>distancia_atual + peso\<close>, an integer plus a weight. For the weight
  \<^verbatim>\<open>float('infinity')\<close> Python converts the integer to a float first, which raises
  \<^verbatim>\<open>OverflowError\<close> for an integer that rounds to 2 ^ 1024 or beyond, and the sum is
  \<^verbatim>\<open>inf\<close> otherwise.
\<close>

definition too_large :: "int \<Rightarrow> bool" where
  "too_large d = (2 ^ 1024 - 2 ^ 970 \<le> \<bar>d\<bar>)"

fun py_add :: "int \<Rightarrow> dist \<Rightarrow> error + dist" where
  "py_add d (Fin w) = Inr (Fin (d + w))"
| "py_add d Infinity = (if too_large d then Inl OverflowError else Inr Infinity)"

subsection \<open>The priority queue\<close>

text \<open>
  \<^verbatim>\<open>heapq\<close> is Python's library heap: \<^verbatim>\<open>heappush\<close> adds an item and \<^verbatim>\<open>heappop\<close> removes
  and returns the least one. The items are tuples \<^verbatim>\<open>(distance, vertex)\<close>, compared
  lexicographically. The queue is the list of the items it holds. The distance of an
  item is an integer: line 25 pushes 0, and line 39 pushes a sum that is below a table
  entry, which \<^verbatim>\<open>inf\<close> never is.
\<close>

fun tuple_lt :: "int \<times> 'v::linorder \<Rightarrow> int \<times> 'v \<Rightarrow> bool" where
  "tuple_lt (d1, v1) (d2, v2) = (d1 < d2 \<or> (d1 = d2 \<and> v1 < v2))"

fun heap_min :: "int \<times> 'v::linorder \<Rightarrow> (int \<times> 'v) list \<Rightarrow> int \<times> 'v" where
  "heap_min m [] = m"
| "heap_min m (x # xs) = heap_min (if tuple_lt x m then x else m) xs"

definition heappush :: "(int \<times> 'v) list \<Rightarrow> int \<times> 'v \<Rightarrow> (int \<times> 'v) list" where
  "heappush q x = q @ [x]"

text \<open>\<open>heappop\<close> is called on a non-empty queue only: the loop tests it first.\<close>

definition heappop :: "(int \<times> 'v::linorder) list \<Rightarrow> (int \<times> 'v) \<times> (int \<times> 'v) list" where
  "heappop q = (let m = heap_min (hd q) (tl q) in (m, remove1 m q))"

subsection \<open>dijkstra\<close>

text \<open>Lines 33 to 39: the loop over \<^verbatim>\<open>grafo[vertice_atual].items()\<close>. The sum of
  line 34 may raise \<^verbatim>\<open>OverflowError\<close>, a lookup of a missing key raises \<^verbatim>\<open>KeyError\<close>,
  and the test of line 36 is false for a sum that is \<^verbatim>\<open>inf\<close>.\<close>

fun relax :: "int \<Rightarrow> 'v \<Rightarrow> ('v \<times> dist) list \<Rightarrow> 'v state \<Rightarrow> error + 'v state" where
  "relax distancia_atual vertice_atual [] st = Inr st"
| "relax distancia_atual vertice_atual ((vizinho, peso) # items) st =
     (case py_add distancia_atual peso of
        Inl e \<Rightarrow> Inl e
      | Inr soma \<Rightarrow>
          (case map_of (distancias st) vizinho of
             None \<Rightarrow> Inl KeyError
           | Some dv \<Rightarrow>
               (case soma of
                  Infinity \<Rightarrow> relax distancia_atual vertice_atual items st
                | Fin distancia \<Rightarrow>
                    if dist_lt distancia dv then
                      (case map_of (caminhos st) vertice_atual of
                         None \<Rightarrow> Inl KeyError
                       | Some caminho \<Rightarrow>
                           relax distancia_atual vertice_atual items
                             \<lparr>distancias = AList.update vizinho (Fin distancia) (distancias st),
                              caminhos = AList.update vizinho (caminho @ [vizinho]) (caminhos st),
                              fila_prioridade =
                                heappush (fila_prioridade st) (distancia, vizinho)\<rparr>)
                    else relax distancia_atual vertice_atual items st)))"

text \<open>Lines 28 to 39: one round of the \<^verbatim>\<open>while\<close> loop, on a non-empty queue.\<close>

definition iteration :: "'v::linorder graph \<Rightarrow> 'v state \<Rightarrow> error + 'v state" where
  "iteration grafo st =
     (case heappop (fila_prioridade st) of
        ((distancia_atual, vertice_atual), fila) \<Rightarrow>
          (let st1 = st\<lparr>fila_prioridade := fila\<rparr> in
           case map_of (distancias st1) vertice_atual of
             None \<Rightarrow> Inl KeyError
           | Some dv \<Rightarrow>
               if dist_gt distancia_atual dv then Inr st1
               else (case map_of grafo vertice_atual of
                       None \<Rightarrow> Inl KeyError
                     | Some items \<Rightarrow> relax distancia_atual vertice_atual items st1)))"

text \<open>Lines 27 to 41: the \<^verbatim>\<open>while\<close> loop and the return. The loop may run forever, so
  the result is an option: \<open>None\<close> is a run that never returns.\<close>

partial_function (option) while_loop ::
  "'v::linorder graph \<Rightarrow> 'v state \<Rightarrow> (error + 'v dist_table \<times> 'v path_table) option" where
  [code]: "while_loop grafo st =
     (if fila_prioridade st = [] then Some (Inr (distancias st, caminhos st))
      else case iteration grafo st of
             Inl e \<Rightarrow> Some (Inl e)
           | Inr st' \<Rightarrow> while_loop grafo st')"

text \<open>Lines 19 to 25: the two tables and the queue before the loop.\<close>

definition initial :: "'v graph \<Rightarrow> 'v \<Rightarrow> 'v state" where
  "initial grafo inicio =
     \<lparr>distancias = AList.update inicio (Fin 0) (map (\<lambda>(vertice, _). (vertice, Infinity)) grafo),
      caminhos = AList.update inicio [inicio] (map (\<lambda>(vertice, _). (vertice, [])) grafo),
      fila_prioridade = [(0, inicio)]\<rparr>"

definition dijkstra ::
  "'v::linorder graph \<Rightarrow> 'v \<Rightarrow> (error + 'v dist_table \<times> 'v path_table) option" where
  "dijkstra grafo inicio = while_loop grafo (initial grafo inicio)"

text \<open>Lines 87 to 97.\<close>

definition grafo_exemplo :: "string graph" where
  "grafo_exemplo =
    [(''A'', [(''B'', Fin 6), (''D'', Fin 1), (''H'', Fin 2)]),
     (''B'', [(''A'', Fin 6), (''C'', Fin 5), (''D'', Fin 2), (''G'', Fin 3)]),
     (''C'', [(''B'', Fin 5), (''D'', Fin 1), (''E'', Fin 3), (''I'', Fin 1)]),
     (''D'', [(''A'', Fin 1), (''B'', Fin 2), (''C'', Fin 1), (''E'', Fin 4), (''F'', Fin 2)]),
     (''E'', [(''C'', Fin 3), (''D'', Fin 4), (''F'', Fin 1)]),
     (''F'', [(''D'', Fin 2), (''E'', Fin 1), (''G'', Fin 4)]),
     (''G'', [(''B'', Fin 3), (''F'', Fin 4), (''H'', Fin 3)]),
     (''H'', [(''A'', Fin 2), (''G'', Fin 3), (''I'', Fin 2)]),
     (''I'', [(''C'', Fin 1), (''H'', Fin 2)])]"

subsection \<open>Graphs, paths and weights\<close>

text \<open>The order and the sum of weights and distances.\<close>

fun dist_le :: "dist \<Rightarrow> dist \<Rightarrow> bool" where
  "dist_le (Fin a) (Fin b) = (a \<le> b)"
| "dist_le x Infinity = True"
| "dist_le Infinity (Fin b) = False"

fun dist_add :: "dist \<Rightarrow> dist \<Rightarrow> dist" where
  "dist_add (Fin a) (Fin b) = Fin (a + b)"
| "dist_add x Infinity = Infinity"
| "dist_add Infinity (Fin b) = Infinity"

text \<open>The keys of the graph, the weight \<^verbatim>\<open>grafo[a][b]\<close> of an edge, and the conditions on
  a graph that the properties below speak of: the keys of a dict are distinct, the
  weights are not negative, the weights are integers, every neighbour is itself a key.\<close>

definition vertices :: "'v graph \<Rightarrow> 'v set" where
  "vertices grafo = fst ` set grafo"

definition peso :: "'v graph \<Rightarrow> 'v \<Rightarrow> 'v \<Rightarrow> dist option" where
  "peso grafo a b = (case map_of grafo a of None \<Rightarrow> None | Some items \<Rightarrow> map_of items b)"

definition is_dict :: "('k \<times> 'a) list \<Rightarrow> bool" where
  "is_dict xs = distinct (map fst xs)"

definition wf_graph :: "'v graph \<Rightarrow> bool" where
  "wf_graph grafo = (is_dict grafo \<and> (\<forall>(u, items) \<in> set grafo. is_dict items))"

definition nonneg :: "'v graph \<Rightarrow> bool" where
  "nonneg grafo = (\<forall>(u, items) \<in> set grafo. \<forall>(v, w) \<in> set items. dist_le (Fin 0) w)"

definition integer_weights :: "'v graph \<Rightarrow> bool" where
  "integer_weights grafo = (\<forall>(u, items) \<in> set grafo. \<forall>(v, w) \<in> set items. w \<noteq> Infinity)"

definition closed :: "'v graph \<Rightarrow> bool" where
  "closed grafo = (\<forall>(u, items) \<in> set grafo. \<forall>(v, w) \<in> set items. v \<in> vertices grafo)"

text \<open>The sum of the weights over the consecutive pairs of a sequence of vertices; \<open>None\<close>
  when some pair is not an edge of the graph.\<close>

fun path_weight :: "'v graph \<Rightarrow> 'v list \<Rightarrow> dist option" where
  "path_weight grafo (a # b # p) =
     (case peso grafo a b of
        None \<Rightarrow> None
      | Some w \<Rightarrow>
          (case path_weight grafo (b # p) of None \<Rightarrow> None | Some r \<Rightarrow> Some (dist_add w r)))"
| "path_weight grafo p = Some (Fin 0)"

text \<open>A directed path from \<open>s\<close> to \<open>v\<close>: a non-empty sequence of vertices from \<open>s\<close> to \<open>v\<close>
  whose consecutive pairs are edges.\<close>

definition route :: "'v graph \<Rightarrow> 'v \<Rightarrow> 'v \<Rightarrow> 'v list \<Rightarrow> bool" where
  "route grafo s v p = (p \<noteq> [] \<and> hd p = s \<and> last p = v \<and> path_weight grafo p \<noteq> None)"

text \<open>A table entry \<open>x\<close> is the least weight of a path from \<open>s\<close> to \<open>v\<close>; it is infinite
  when every path is of infinite weight, so when there is none.\<close>

definition least_weight :: "'v graph \<Rightarrow> 'v \<Rightarrow> 'v \<Rightarrow> dist \<Rightarrow> bool" where
  "least_weight grafo s v x =
     (case x of
        Fin d \<Rightarrow> (\<exists>p. route grafo s v p \<and> path_weight grafo p = Some (Fin d)) \<and>
                 (\<forall>p w. route grafo s v p \<and> path_weight grafo p = Some w \<longrightarrow> dist_le (Fin d) w)
      | Infinity \<Rightarrow> (\<forall>p. route grafo s v p \<longrightarrow> path_weight grafo p = Some Infinity))"

text \<open>Every neighbour of a vertex that a path from \<open>s\<close> reaches is a key.\<close>

definition reach_closed :: "'v graph \<Rightarrow> 'v \<Rightarrow> bool" where
  "reach_closed grafo s =
     (\<forall>u p items v w. route grafo s u p \<and> map_of grafo u = Some items \<and> (v, w) \<in> set items
        \<longrightarrow> v \<in> vertices grafo)"

subsection \<open>The invariant of the loop\<close>

text \<open>
  What holds of the two tables and the queue at the start of each round of the \<^verbatim>\<open>while\<close>
  loop, and between two rounds of the \<^verbatim>\<open>for\<close> loop over the neighbours of \<open>u0\<close> with
  \<open>es\<close> still to visit: the tables have the keys of the graph and the source; a queued
  item is not below the entry of its vertex; the source stays at 0 with the path of itself
  alone; a finite entry is the weight of the stored path, which leads from the source to
  the vertex; an infinite entry has the empty path; and a vertex with a finite entry is
  queued with that entry, or each of its edges of integer weight has been relaxed.
\<close>

definition inv_dom :: "'v graph \<Rightarrow> 'v \<Rightarrow> 'v state \<Rightarrow> bool" where
  "inv_dom grafo s st =
     (dom (map_of (distancias st)) = insert s (vertices grafo) \<and>
      dom (map_of (caminhos st)) = insert s (vertices grafo))"

definition inv_queue :: "'v state \<Rightarrow> bool" where
  "inv_queue st =
     (\<forall>(d, u) \<in> set (fila_prioridade st).
        \<exists>du. map_of (distancias st) u = Some (Fin du) \<and> du \<le> d)"

definition inv_src :: "'v \<Rightarrow> 'v state \<Rightarrow> bool" where
  "inv_src s st =
     (map_of (distancias st) s = Some (Fin 0) \<and> map_of (caminhos st) s = Some [s])"

definition inv_path :: "'v graph \<Rightarrow> 'v \<Rightarrow> 'v state \<Rightarrow> bool" where
  "inv_path grafo s st =
     (\<forall>v d. map_of (distancias st) v = Some (Fin d) \<longrightarrow>
        0 \<le> d \<and> (\<exists>p. map_of (caminhos st) v = Some p \<and> route grafo s v p \<and>
                       path_weight grafo p = Some (Fin d)))"

definition inv_inf :: "'v state \<Rightarrow> bool" where
  "inv_inf st =
     (\<forall>v. map_of (distancias st) v = Some Infinity \<longrightarrow> map_of (caminhos st) v = Some [])"

text \<open>The edge to \<open>v\<close> of weight \<open>pw\<close> out of a vertex with entry \<open>d\<close> is relaxed: an
  integer weight puts the entry of \<open>v\<close> at \<open>d + pw\<close> or below. An infinite weight
  asks for nothing.\<close>

definition relaxed :: "'v dist_table \<Rightarrow> int \<Rightarrow> 'v \<Rightarrow> dist \<Rightarrow> bool" where
  "relaxed D d v pw =
     (\<forall>w. pw = Fin w \<longrightarrow> (\<exists>dv. map_of D v = Some (Fin dv) \<and> dv \<le> d + w))"

definition inv_relaxed :: "'v graph \<Rightarrow> 'v state \<Rightarrow> 'v \<Rightarrow> ('v \<times> dist) list \<Rightarrow> bool" where
  "inv_relaxed grafo st u0 es =
     (\<forall>u d. map_of (distancias st) u = Some (Fin d) \<longrightarrow>
        (d, u) \<in> set (fila_prioridade st) \<or>
        (\<forall>items. map_of grafo u = Some items \<longrightarrow>
           (\<forall>(v, pw) \<in> set items.
              (u = u0 \<and> (v, pw) \<in> set es) \<or> relaxed (distancias st) d v pw)))"

definition invariant :: "'v graph \<Rightarrow> 'v \<Rightarrow> 'v state \<Rightarrow> 'v \<Rightarrow> ('v \<times> dist) list \<Rightarrow> bool" where
  "invariant grafo s st u0 es =
     (inv_dom grafo s st \<and> inv_queue st \<and> inv_src s st \<and> inv_path grafo s st \<and>
      inv_inf st \<and> inv_relaxed grafo st u0 es)"

text \<open>The part of the invariant that holds whatever the weights are.\<close>

definition inv_keys :: "'v graph \<Rightarrow> 'v \<Rightarrow> 'v state \<Rightarrow> bool" where
  "inv_keys grafo s st =
     (dom (map_of (distancias st)) = insert s (vertices grafo) \<and>
      dom (map_of (caminhos st)) = insert s (vertices grafo) \<and>
      (\<forall>(d, u) \<in> set (fila_prioridade st). u \<in> insert s (vertices grafo)))"

subsection \<open>The measure of the loop\<close>

text \<open>The number of infinite entries, the sum of the finite ones and the length of the
  queue: each round of the \<^verbatim>\<open>while\<close> loop makes the triple smaller in the lexicographic
  order.\<close>

fun count_inf :: "'v dist_table \<Rightarrow> nat" where
  "count_inf [] = 0"
| "count_inf ((v, x) # al) = (case x of Infinity \<Rightarrow> Suc (count_inf al) | Fin d \<Rightarrow> count_inf al)"

fun sum_fin :: "'v dist_table \<Rightarrow> nat" where
  "sum_fin [] = 0"
| "sum_fin ((v, x) # al) = (case x of Infinity \<Rightarrow> sum_fin al | Fin d \<Rightarrow> nat d + sum_fin al)"

definition progress :: "'v state \<Rightarrow> nat \<times> nat \<times> nat" where
  "progress st =
     (count_inf (distancias st), sum_fin (distancias st), length (fila_prioridade st))"

definition progress_le :: "nat \<times> nat \<times> nat \<Rightarrow> nat \<times> nat \<times> nat \<Rightarrow> bool" where
  "progress_le a b =
     (case (a, b) of ((c', s', l'), (c, s, l)) \<Rightarrow>
        c' < c \<or> (c' = c \<and> s' < s) \<or> (c' = c \<and> s' = s \<and> l' = l))"

definition progress_order :: "((nat \<times> nat \<times> nat) \<times> (nat \<times> nat \<times> nat)) set" where
  "progress_order = less_than <*lex*> less_than <*lex*> less_than"

subsection \<open>Edges of a path, changes to a graph\<close>

text \<open>Line 76 of \<^verbatim>\<open>visualizar_grafo\<close>: the consecutive pairs of a path,
  \<^verbatim>\<open>zip(caminho[:-1], caminho[1:])\<close>. Then the graph
  after \<^verbatim>\<open>del grafo[a][b]\<close> and after \<^verbatim>\<open>grafo[a][b] = w\<close>; both leave a graph
  without the key \<open>a\<close> as it is.\<close>

definition arestas_caminho :: "'v list \<Rightarrow> ('v \<times> 'v) list" where
  "arestas_caminho caminho = zip (butlast caminho) (tl caminho)"

definition remove_edge :: "'v graph \<Rightarrow> 'v \<Rightarrow> 'v \<Rightarrow> 'v graph" where
  "remove_edge grafo a b =
     map (\<lambda>(u, items). (u, if u = a then AList.delete b items else items)) grafo"

definition add_edge :: "'v graph \<Rightarrow> 'v \<Rightarrow> 'v \<Rightarrow> dist \<Rightarrow> 'v graph" where
  "add_edge grafo a b w =
     map (\<lambda>(u, items). (u, if u = a then AList.update b w items else items)) grafo"

text \<open>Two states with the same tables whose queues hold the same items, in whatever
  arrangement.\<close>

definition same_items :: "'v state \<Rightarrow> 'v state \<Rightarrow> bool" where
  "same_items st1 st2 =
     (distancias st1 = distancias st2 \<and> caminhos st1 = caminhos st2 \<and>
      mset (fila_prioridade st1) = mset (fila_prioridade st2))"

section \<open>Properties\<close>

subsection \<open>Auxiliary facts\<close>

lemma heap_min_in: "heap_min m xs \<in> insert m (set xs)"
  by (induction xs arbitrary: m) auto

lemma heappop_in: "q \<noteq> [] \<Longrightarrow> heappop q = (m, q') \<Longrightarrow> m \<in> set q \<and> q' = remove1 m q"
  using heap_min_in [of "hd q" "tl q"]
  by (cases q) (auto simp: heappop_def Let_def)

lemma dist_add_zero [simp]: "dist_add (Fin 0) x = x" "dist_add x (Fin 0) = x"
  by (cases x; simp)+

lemma dist_add_assoc: "dist_add (dist_add a b) c = dist_add a (dist_add b c)"
  by (cases a; cases b; cases c) simp_all

lemma dist_add_Fin: "dist_add a b = Fin c \<longleftrightarrow> (\<exists>x y. a = Fin x \<and> b = Fin y \<and> c = x + y)"
  by (cases a; cases b) auto

lemma dist_le_zero_Fin [simp]: "dist_le (Fin 0) (Fin w) = (0 \<le> w)"
  by simp

lemma path_weight_snoc:
  "p \<noteq> [] \<Longrightarrow> path_weight g (p @ [v]) =
     (case path_weight g p of None \<Rightarrow> None
      | Some r \<Rightarrow> (case peso g (last p) v of None \<Rightarrow> None | Some w \<Rightarrow> Some (dist_add r w)))"
  by (induction g p rule: path_weight.induct)
    (auto simp: dist_add_assoc split: option.splits)

lemma route_snoc:
  "route g s u p \<Longrightarrow> peso g u v = Some w \<Longrightarrow> route g s v (p @ [v])"
  by (auto simp: route_def path_weight_snoc)

lemma route_single: "route g s s [s]"
  by (simp add: route_def)

lemma map_of_is_dict: "is_dict xs \<Longrightarrow> (k, x) \<in> set xs \<Longrightarrow> map_of xs k = Some x"
  by (simp add: is_dict_def)

lemma peso_edge:
  "wf_graph g \<Longrightarrow> map_of g u = Some items \<Longrightarrow> (v, w) \<in> set items \<Longrightarrow> peso g u v = Some w"
  unfolding wf_graph_def peso_def
  by (auto dest!: map_of_SomeD intro: map_of_is_dict)

lemma nonneg_edge:
  "nonneg g \<Longrightarrow> map_of g u = Some items \<Longrightarrow> (v, w) \<in> set items \<Longrightarrow> dist_le (Fin 0) w"
  unfolding nonneg_def by (auto dest!: map_of_SomeD)

lemma closed_edge:
  "closed g \<Longrightarrow> map_of g u = Some items \<Longrightarrow> (v, w) \<in> set items \<Longrightarrow> v \<in> vertices g"
  unfolding closed_def by (auto dest!: map_of_SomeD)

lemma map_of_vertices: "map_of g u = Some items \<Longrightarrow> u \<in> vertices g"
  by (auto simp: vertices_def dest!: map_of_SomeD intro: rev_image_eqI)

lemma vertices_map_of: "u \<in> vertices g \<Longrightarrow> \<exists>items. map_of g u = Some items"
  by (metis vertices_def domD dom_map_of_conv_image_fst)

lemma relaxed_update:
  "relaxed D e y wy \<Longrightarrow> (\<And>c. map_of D v = Some (Fin c) \<Longrightarrow> n \<le> c) \<Longrightarrow>
   relaxed (AList.update v (Fin n) D) e y wy"
  unfolding relaxed_def AList.update_conv' by fastforce

lemma relax_improve:
  fixes st :: "'v state"
  assumes inv: "invariant g s st u ((v, Fin w) # es)"
    and du: "map_of (distancias st) u = Some (Fin d)"
    and pw: "peso g u v = Some (Fin w)" and w0: "0 \<le> w"
    and dv: "map_of (distancias st) v = Some dv" and lt: "dist_lt (d + w) dv"
    and pu: "map_of (caminhos st) u = Some p"
    and st': "st' = \<lparr>distancias = AList.update v (Fin (d + w)) (distancias st),
                     caminhos = AList.update v (p @ [v]) (caminhos st),
                     fila_prioridade = heappush (fila_prioridade st) (d + w, v)\<rparr>"
  shows "invariant g s st' u es \<and> map_of (distancias st') u = Some (Fin d)"
proof -
  have D': "map_of (distancias st') = (map_of (distancias st))(v \<mapsto> Fin (d + w))"
    and P': "map_of (caminhos st') = (map_of (caminhos st))(v \<mapsto> p @ [v])"
    and Q': "set (fila_prioridade st') = insert (d + w, v) (set (fila_prioridade st))"
    by (simp_all add: st' AList.update_conv' heappush_def)
  from inv have idom: "inv_dom g s st" and iq: "inv_queue st" and isrc: "inv_src s st"
    and ipath: "inv_path g s st" and iinf: "inv_inf st"
    and irel: "inv_relaxed g st u ((v, Fin w) # es)"
    by (simp_all add: invariant_def)
  from ipath du obtain p' where d0: "0 \<le> d" and p': "map_of (caminhos st) u = Some p'"
    "route g s u p'" "path_weight g p' = Some (Fin d)"
    unfolding inv_path_def by blast
  with pu have pr: "route g s u p" and pwt: "path_weight g p = Some (Fin d)" by simp_all
  have vu: "v \<noteq> u" using du dv lt w0 by auto
  have vs: "v \<noteq> s" using isrc dv lt w0 d0 by (auto simp: inv_src_def)
  have vdom: "v \<in> dom (map_of (distancias st))" using dv by auto
  have old_le: "\<And>e. dv = Fin e \<Longrightarrow> d + w < e" using lt by auto
  have 1: "inv_dom g s st'"
    using idom vdom by (auto simp: inv_dom_def D' P')
  have 2: "inv_queue st'"
    unfolding inv_queue_def Q' D'
  proof (intro ballI)
    fix x assume x: "x \<in> insert (d + w, v) (set (fila_prioridade st))"
    obtain d' y where xy: "x = (d', y)" by (cases x)
    show "case x of (c, z) \<Rightarrow>
            \<exists>dz. ((map_of (distancias st))(v \<mapsto> Fin (d + w))) z = Some (Fin dz) \<and> dz \<le> c"
    proof (cases "y = v")
      case True
      show ?thesis
      proof (cases "x = (d + w, v)")
        case True then show ?thesis by simp
      next
        case False
        with x xy have "(d', v) \<in> set (fila_prioridade st)" using True by auto
        with iq obtain e where "map_of (distancias st) v = Some (Fin e)" "e \<le> d'"
          by (auto simp: inv_queue_def)
        with dv old_le have "d + w \<le> d'" by auto
        then show ?thesis using xy True by simp
      qed
    next
      case False
      with x xy have "(d', y) \<in> set (fila_prioridade st)" by auto
      with iq show ?thesis using xy False by (auto simp: inv_queue_def)
    qed
  qed
  have 3: "inv_src s st'"
    using isrc vs by (simp add: inv_src_def D' P')
  have 4: "inv_path g s st'"
    unfolding inv_path_def D' P'
  proof (intro allI impI)
    fix x e assume a: "((map_of (distancias st))(v \<mapsto> Fin (d + w))) x = Some (Fin e)"
    show "0 \<le> e \<and> (\<exists>q. ((map_of (caminhos st))(v \<mapsto> p @ [v])) x = Some q \<and> route g s x q \<and>
            path_weight g q = Some (Fin e))"
    proof (cases "x = v")
      case True
      with a have e: "e = d + w" by simp
      have "route g s v (p @ [v])" using pr pw by (rule route_snoc)
      moreover have "path_weight g (p @ [v]) = Some (Fin (d + w))"
        using pr pwt pw by (simp add: route_def path_weight_snoc)
      ultimately show ?thesis using True e d0 w0 by simp
    next
      case False
      with a ipath show ?thesis by (simp add: inv_path_def)
    qed
  qed
  have 5: "inv_inf st'"
    using iinf by (auto simp: inv_inf_def D' P')
  have 6: "inv_relaxed g st' u es"
    unfolding inv_relaxed_def
  proof (intro allI impI)
    fix x e assume a: "map_of (distancias st') x = Some (Fin e)"
    show "(e, x) \<in> set (fila_prioridade st') \<or>
          (\<forall>items. map_of g x = Some items \<longrightarrow>
             (\<forall>(y, wy) \<in> set items. (x = u \<and> (y, wy) \<in> set es) \<or>
                relaxed (distancias st') e y wy))"
    proof (cases "x = v")
      case True
      with a have "e = d + w" by (simp add: D')
      then show ?thesis using True by (simp add: Q')
    next
      case False
      with a have ox: "map_of (distancias st) x = Some (Fin e)" by (simp add: D')
      from irel ox have old: "(e, x) \<in> set (fila_prioridade st) \<or>
          (\<forall>items. map_of g x = Some items \<longrightarrow>
             (\<forall>(y, wy) \<in> set items. (x = u \<and> (y, wy) \<in> set ((v, Fin w) # es)) \<or>
                relaxed (distancias st) e y wy))"
        unfolding inv_relaxed_def by blast
      show ?thesis
      proof (cases "(e, x) \<in> set (fila_prioridade st)")
        case True then show ?thesis by (simp add: Q')
      next
        case nq: False
        have "\<forall>items. map_of g x = Some items \<longrightarrow>
             (\<forall>(y, wy) \<in> set items. (x = u \<and> (y, wy) \<in> set es) \<or>
                relaxed (distancias st') e y wy)"
        proof (intro allI impI ballI)
          fix items yw assume it: "map_of g x = Some items" and yw: "yw \<in> set items"
          obtain y wy where ywe: "yw = (y, wy)" by (cases yw)
          from old nq it yw ywe
          have c: "(x = u \<and> (y, wy) \<in> set ((v, Fin w) # es)) \<or>
                relaxed (distancias st) e y wy" by auto
          have "(x = u \<and> (y, wy) \<in> set es) \<or> relaxed (distancias st') e y wy"
          proof (cases "x = u \<and> (y, wy) \<in> set es")
            case True then show ?thesis by simp
          next
            case nes: False
            show ?thesis
            proof (cases "x = u \<and> (y, wy) = (v, Fin w)")
              case True
              with ox du have "e = d" by simp
              with True have "relaxed (distancias st') e y wy"
                by (simp add: relaxed_def D')
              then show ?thesis by simp
            next
              case False
              with c nes have "relaxed (distancias st) e y wy" by auto
              moreover have "d + w \<le> c" if "map_of (distancias st) v = Some (Fin c)" for c
                using that dv old_le [of c] by simp
              ultimately have "relaxed (AList.update v (Fin (d + w)) (distancias st)) e y wy"
                by (rule relaxed_update)
              then have "relaxed (distancias st') e y wy" by (simp add: st')
              then show ?thesis by simp
            qed
          qed
          then show "case yw of (y, wy) \<Rightarrow> (x = u \<and> (y, wy) \<in> set es) \<or>
                relaxed (distancias st') e y wy"
            using ywe by simp
        qed
        then show ?thesis by blast
      qed
    qed
  qed
  have 7: "map_of (distancias st') u = Some (Fin d)"
    using du vu by (simp add: D')
  from 1 2 3 4 5 6 7 show ?thesis by (simp add: invariant_def)
qed

lemma relax_keep:
  fixes st :: "'v state"
  assumes inv: "invariant g s st u ((v, pw) # es)"
    and du: "map_of (distancias st) u = Some (Fin d)"
    and ok: "relaxed (distancias st) d v pw"
  shows "invariant g s st u es"
proof -
  from inv have irel: "inv_relaxed g st u ((v, pw) # es)" by (simp add: invariant_def)
  have "inv_relaxed g st u es"
    unfolding inv_relaxed_def
  proof (intro allI impI)
    fix x c assume a: "map_of (distancias st) x = Some (Fin c)"
    from irel a have old: "(c, x) \<in> set (fila_prioridade st) \<or>
          (\<forall>items. map_of g x = Some items \<longrightarrow>
             (\<forall>(y, wy) \<in> set items. (x = u \<and> (y, wy) \<in> set ((v, pw) # es)) \<or>
                relaxed (distancias st) c y wy))"
      unfolding inv_relaxed_def by blast
    have "x = u \<Longrightarrow> c = d" using a du by simp
    with old ok show "(c, x) \<in> set (fila_prioridade st) \<or>
          (\<forall>items. map_of g x = Some items \<longrightarrow>
             (\<forall>(y, wy) \<in> set items. (x = u \<and> (y, wy) \<in> set es) \<or>
                relaxed (distancias st) c y wy))"
      by fastforce
  qed
  with inv show ?thesis by (simp add: invariant_def)
qed

lemma relax_Fin:
  "map_of (distancias st) v = Some dv \<Longrightarrow>
   relax d u ((v, Fin w) # es) st =
     (if dist_lt (d + w) dv then
        (case map_of (caminhos st) u of
           None \<Rightarrow> Inl KeyError
         | Some p \<Rightarrow>
             relax d u es
               \<lparr>distancias = AList.update v (Fin (d + w)) (distancias st),
                caminhos = AList.update v (p @ [v]) (caminhos st),
                fila_prioridade = heappush (fila_prioridade st) (d + w, v)\<rparr>)
      else relax d u es st)"
  by simp

lemma relax_Infinity:
  "map_of (distancias st) v = Some dv \<Longrightarrow>
   relax d u ((v, Infinity) # es) st = (if too_large d then Inl OverflowError else relax d u es st)"
  by simp

lemma relax_Inr_lookup:
  "relax d u ((v, pw) # es) st = Inr st' \<Longrightarrow> \<exists>dv. map_of (distancias st) v = Some dv"
  by (cases pw) (auto split: option.splits sum.splits if_splits)

lemma relax_invariant:
  fixes st :: "'v state"
  assumes "invariant g s st u es"
    and "map_of (distancias st) u = Some (Fin d)"
    and "\<forall>(v, pw) \<in> set es. peso g u v = Some pw \<and> dist_le (Fin 0) pw"
    and "relax d u es st = Inr st'"
  shows "invariant g s st' u []"
  using assms
proof (induction es arbitrary: st)
  case Nil
  then show ?case by simp
next
  case (Cons e es)
  obtain v pw where e: "e = (v, pw)" by (cases e)
  from Cons.prems(3) e have pw: "peso g u v = Some pw" and w0: "dist_le (Fin 0) pw"
    and rest: "\<forall>(v, pw) \<in> set es. peso g u v = Some pw \<and> dist_le (Fin 0) pw" by auto
  from Cons.prems(4) have "\<exists>dv. map_of (distancias st) v = Some dv"
    unfolding e by (rule relax_Inr_lookup)
  then obtain dv where dv: "map_of (distancias st) v = Some dv" by blast
  show ?case
  proof (cases pw)
    case Infinity
    with Cons.prems(4) e dv have r: "relax d u es st = Inr st'"
      by (simp add: relax_Infinity split: if_splits)
    have "invariant g s st u es"
      using Cons.prems(1)[unfolded e] Cons.prems(2)
      by (rule relax_keep) (simp add: relaxed_def Infinity)
    then show ?thesis using Cons.IH Cons.prems(2) rest r by blast
  next
    case (Fin w)
    show ?thesis
    proof (cases "dist_lt (d + w) dv")
      case True
      with Cons.prems(4) e dv Fin obtain p where pu: "map_of (caminhos st) u = Some p"
        by (auto simp: relax_Fin split: option.splits)
      define st1 where "st1 = \<lparr>distancias = AList.update v (Fin (d + w)) (distancias st),
                       caminhos = AList.update v (p @ [v]) (caminhos st),
                       fila_prioridade = heappush (fila_prioridade st) (d + w, v)\<rparr>"
      have r: "relax d u es st1 = Inr st'"
        using Cons.prems(4) e dv True pu Fin by (simp add: relax_Fin st1_def)
      have "invariant g s st1 u es \<and> map_of (distancias st1) u = Some (Fin d)"
        using Cons.prems(1)[unfolded e Fin] Cons.prems(2) pw[unfolded Fin] w0[unfolded Fin, simplified]
          dv True pu st1_def
        by (rule relax_improve)
      then show ?thesis using Cons.IH rest r by blast
    next
      case False
      have r: "relax d u es st = Inr st'"
        using Cons.prems(4) e dv False Fin by (simp add: relax_Fin)
      from False obtain c where "dv = Fin c" "c \<le> d + w" by (cases dv) auto
      with dv have "relaxed (distancias st) d v pw" by (simp add: relaxed_def Fin)
      with Cons.prems(1)[unfolded e] Cons.prems(2) have "invariant g s st u es"
        by (rule relax_keep)
      then show ?thesis using Cons.IH Cons.prems(2) rest r by blast
    qed
  qed
qed

lemma inv_relaxed_Nil: "inv_relaxed g st u [] \<Longrightarrow> inv_relaxed g st u' []"
  by (simp add: inv_relaxed_def)

lemma invariant_Nil: "invariant g s st u [] \<Longrightarrow> invariant g s st u' []"
  by (auto simp: invariant_def intro: inv_relaxed_Nil)

lemma pop_invariant:
  fixes st :: "'v state"
  assumes inv: "invariant g s st u0 []"
    and mem: "(d, u) \<in> set (fila_prioridade st)"
    and dv: "map_of (distancias st) u = Some dv"
    and items: "if dist_gt d dv then items = [] else map_of g u = Some items"
  shows "invariant g s (st\<lparr>fila_prioridade := remove1 (d, u) (fila_prioridade st)\<rparr>) u items \<and>
         (\<not> dist_gt d dv \<longrightarrow> dv = Fin d)"
proof -
  let ?st1 = "st\<lparr>fila_prioridade := remove1 (d, u) (fila_prioridade st)\<rparr>"
  from inv have idom: "inv_dom g s st" and iq: "inv_queue st" and isrc: "inv_src s st"
    and ipath: "inv_path g s st" and iinf: "inv_inf st"
    and irel: "inv_relaxed g st u0 []"
    by (simp_all add: invariant_def)
  from iq mem have "\<exists>du. map_of (distancias st) u = Some (Fin du) \<and> du \<le> d"
    unfolding inv_queue_def by blast
  with dv obtain du where du: "dv = Fin du" "du \<le> d" by auto
  have eq: "\<not> dist_gt d dv \<Longrightarrow> du = d" using du by auto
  have 1: "inv_dom g s ?st1" using idom by (simp add: inv_dom_def)
  have 2: "inv_queue ?st1" using iq set_remove1_subset [of "(d, u)" "fila_prioridade st"]
    by (auto simp: inv_queue_def)
  have 3: "inv_src s ?st1" using isrc by (simp add: inv_src_def)
  have 4: "inv_path g s ?st1" using ipath by (simp add: inv_path_def)
  have 5: "inv_inf ?st1" using iinf by (simp add: inv_inf_def)
  have 6: "inv_relaxed g ?st1 u items"
    unfolding inv_relaxed_def
  proof (intro allI impI)
    fix x c assume a: "map_of (distancias ?st1) x = Some (Fin c)"
    then have a': "map_of (distancias st) x = Some (Fin c)" by simp
    from irel a' have old: "(c, x) \<in> set (fila_prioridade st) \<or>
          (\<forall>its. map_of g x = Some its \<longrightarrow>
             (\<forall>(y, wy) \<in> set its. relaxed (distancias st) c y wy))"
      unfolding inv_relaxed_def by simp
    show "(c, x) \<in> set (fila_prioridade ?st1) \<or>
          (\<forall>its. map_of g x = Some its \<longrightarrow>
             (\<forall>(y, wy) \<in> set its. (x = u \<and> (y, wy) \<in> set items) \<or>
                relaxed (distancias ?st1) c y wy))"
    proof (cases "(c, x) = (d, u)")
      case True
      then have "c = d" "x = u" by simp_all
      with a' dv du have "du = d" by simp
      then have "\<not> dist_gt d dv" using du by simp
      with items have "map_of g u = Some items" by simp
      then show ?thesis using \<open>x = u\<close> by auto
    next
      case False
      show ?thesis
      proof (cases "(c, x) \<in> set (fila_prioridade st)")
        case True
        with False have "(c, x) \<in> set (remove1 (d, u) (fila_prioridade st))" by simp
        then show ?thesis by simp
      next
        case False
        with old have "\<forall>its. map_of g x = Some its \<longrightarrow>
             (\<forall>(y, wy) \<in> set its. relaxed (distancias st) c y wy)" by simp
        then show ?thesis by (simp add: case_prod_unfold)
      qed
    qed
  qed
  from 1 2 3 4 5 6 eq du show ?thesis by (auto simp: invariant_def)
qed

lemma iteration_invariant:
  fixes st :: "'v::linorder state"
  assumes wf: "wf_graph g" and nn: "nonneg g"
    and inv: "invariant g s st u0 []"
    and ne: "fila_prioridade st \<noteq> []"
    and it: "iteration g st = Inr st'"
  shows "invariant g s st' u0 []"
proof -
  obtain d u q where pop: "heappop (fila_prioridade st) = ((d, u), q)"
    by (metis prod.exhaust)
  with ne have mem: "(d, u) \<in> set (fila_prioridade st)"
    and q: "q = remove1 (d, u) (fila_prioridade st)"
    using heappop_in by blast+
  let ?st1 = "st\<lparr>fila_prioridade := remove1 (d, u) (fila_prioridade st)\<rparr>"
  from it pop q obtain dv where dv: "map_of (distancias st) u = Some dv"
    by (auto simp: iteration_def Let_def split: option.splits)
  show ?thesis
  proof (cases "dist_gt d dv")
    case True
    with it pop q dv have "st' = ?st1" by (simp add: iteration_def Let_def)
    moreover have "invariant g s ?st1 u []"
      using pop_invariant [OF inv mem dv, of "[]"] True by simp
    ultimately show ?thesis by (auto intro: invariant_Nil)
  next
    case False
    with it pop q dv obtain items where items: "map_of g u = Some items"
      and r: "relax d u items ?st1 = Inr st'"
      by (auto simp: iteration_def Let_def split: option.splits)
    have p: "invariant g s ?st1 u items" "dv = Fin d"
      using pop_invariant [OF inv mem dv, of items] False items by simp_all
    have du: "map_of (distancias ?st1) u = Some (Fin d)" using dv p(2) by simp
    have es: "\<forall>(v, w) \<in> set items. peso g u v = Some w \<and> dist_le (Fin 0) w"
      using peso_edge [OF wf items] nonneg_edge [OF nn items] by auto
    have "invariant g s st' u []"
      using p(1) du es r by (rule relax_invariant)
    then show ?thesis by (rule invariant_Nil)
  qed
qed

lemma map_of_const_table:
  "map_of (map (\<lambda>(vertice, _). (vertice, c)) g) v = (if v \<in> vertices g then Some c else None)"
  by (induction g) (auto simp: vertices_def)

lemma initial_invariant:
  "invariant g s (initial g s) u []"
proof -
  have D: "map_of (distancias (initial g s)) =
      (\<lambda>v. if v = s then Some (Fin 0) else if v \<in> vertices g then Some Infinity else None)"
    and P: "map_of (caminhos (initial g s)) =
      (\<lambda>v. if v = s then Some [s] else if v \<in> vertices g then Some [] else None)"
    and Q: "fila_prioridade (initial g s) = [(0, s)]"
    by (auto simp: initial_def AList.update_conv' map_of_const_table)
  have 1: "inv_dom g s (initial g s)"
    unfolding inv_dom_def D P by (auto simp: dom_def)
  have 2: "inv_queue (initial g s)"
    unfolding inv_queue_def D Q by simp
  have 3: "inv_src s (initial g s)"
    unfolding inv_src_def D P by simp
  have 4: "inv_path g s (initial g s)"
    unfolding inv_path_def D P by (simp add: route_single)
  have 5: "inv_inf (initial g s)"
    unfolding inv_inf_def D P by simp
  have 6: "inv_relaxed g (initial g s) u []"
    unfolding inv_relaxed_def D Q by simp
  from 1 2 3 4 5 6 show ?thesis by (simp add: invariant_def)
qed

lemma relaxed_lower_bound:
  fixes st :: "'v state"
  assumes irel: "inv_relaxed g st u0 []" and q: "fila_prioridade st = []"
  shows "map_of (distancias st) a = Some (Fin da) \<Longrightarrow> p \<noteq> [] \<Longrightarrow> hd p = a \<Longrightarrow>
         path_weight g p = Some (Fin w) \<Longrightarrow>
         \<exists>dv. map_of (distancias st) (last p) = Some (Fin dv) \<and> dv \<le> da + w"
proof (induction p arbitrary: a da w)
  case Nil
  then show ?case by simp
next
  case (Cons x p)
  then have xa: "x = a" by simp
  show ?case
  proof (cases p)
    case Nil
    with Cons.prems xa show ?thesis by simp
  next
    case (Cons b p')
    from Cons.prems(4) xa Cons obtain pw1 pw2 where "peso g a b = Some pw1"
      "path_weight g (b # p') = Some pw2" "dist_add pw1 pw2 = Fin w"
      by (auto split: option.splits)
    then obtain w1 w2 where w1: "peso g a b = Some (Fin w1)"
      and w2: "path_weight g (b # p') = Some (Fin w2)" and w: "w = w1 + w2"
      by (auto simp: dist_add_Fin)
    from w1 obtain items where items: "map_of g a = Some items"
      and b: "map_of items b = Some (Fin w1)"
      by (auto simp: peso_def split: option.splits)
    from b have "(b, Fin w1) \<in> set items" by (rule map_of_SomeD)
    moreover from irel Cons.prems(1) q items
    have "\<forall>(v, pw) \<in> set items. relaxed (distancias st) da v pw"
      unfolding inv_relaxed_def by simp
    ultimately have "relaxed (distancias st) da b (Fin w1)" by blast
    then obtain db where
      db: "map_of (distancias st) b = Some (Fin db)" "db \<le> da + w1"
      unfolding relaxed_def by blast
    from Cons.IH [of b db w2] db(1) w2 Cons
    obtain dv where "map_of (distancias st) (last p) = Some (Fin dv)" "dv \<le> db + w2"
      by auto
    with db(2) w Cons show ?thesis by auto
  qed
qed

lemma invariant_keys: "invariant g s st u es \<Longrightarrow> inv_keys g s st"
  unfolding invariant_def inv_keys_def inv_dom_def inv_queue_def
  by (auto simp: dom_def) blast

lemma integer_weights_edge:
  "integer_weights g \<Longrightarrow> map_of g u = Some items \<Longrightarrow> (v, w) \<in> set items \<Longrightarrow> w \<noteq> Infinity"
  unfolding integer_weights_def by (auto dest!: map_of_SomeD)

lemma inv_keys_push:
  fixes st :: "'v state"
  assumes "inv_keys g s st" and "map_of (distancias st) v = Some dv"
  shows "inv_keys g s \<lparr>distancias = AList.update v x (distancias st),
                         caminhos = AList.update v p (caminhos st),
                         fila_prioridade = heappush (fila_prioridade st) (n, v)\<rparr>"
proof -
  from assms have "v \<in> insert s (vertices g)" by (auto simp: inv_keys_def)
  with assms(1) show ?thesis
    by (auto simp: inv_keys_def AList.update_conv' heappush_def)
qed

lemma relax_keys:
  fixes st :: "'v state"
  shows "inv_keys g s st \<Longrightarrow> relax d u es st = Inr st' \<Longrightarrow> inv_keys g s st'"
proof (induction es arbitrary: st)
  case Nil
  then show ?case by simp
next
  case (Cons e es)
  obtain v pw where e: "e = (v, pw)" by (cases e)
  from Cons.prems(2) have "\<exists>dv. map_of (distancias st) v = Some dv"
    unfolding e by (rule relax_Inr_lookup)
  then obtain dv where dv: "map_of (distancias st) v = Some dv" by blast
  show ?case
  proof (cases pw)
    case Infinity
    with Cons.prems(2) e dv have "relax d u es st = Inr st'"
      by (simp add: relax_Infinity split: if_splits)
    then show ?thesis using Cons.IH Cons.prems(1) by blast
  next
    case (Fin w)
    show ?thesis
    proof (cases "dist_lt (d + w) dv")
      case True
      with Cons.prems(2) e dv Fin obtain p where pu: "map_of (caminhos st) u = Some p"
        by (auto simp: relax_Fin split: option.splits)
      define st1 where "st1 = \<lparr>distancias = AList.update v (Fin (d + w)) (distancias st),
                       caminhos = AList.update v (p @ [v]) (caminhos st),
                       fila_prioridade = heappush (fila_prioridade st) (d + w, v)\<rparr>"
      have r: "relax d u es st1 = Inr st'"
        using Cons.prems(2) e dv True pu Fin by (simp add: relax_Fin st1_def)
      have "inv_keys g s st1"
        unfolding st1_def using Cons.prems(1) dv by (rule inv_keys_push)
      then show ?thesis using Cons.IH r by blast
    next
      case False
      have r: "relax d u es st = Inr st'"
        using Cons.prems(2) e dv False Fin by (simp add: relax_Fin)
      then show ?thesis using Cons.IH Cons.prems(1) by blast
    qed
  qed
qed

lemma iteration_keys:
  fixes st :: "'v::linorder state"
  assumes inv: "inv_keys g s st" and it: "iteration g st = Inr st'"
  shows "inv_keys g s st'"
proof -
  obtain d u q where pop: "heappop (fila_prioridade st) = ((d, u), q)"
    by (metis prod.exhaust)
  have q: "set q \<subseteq> set (fila_prioridade st)"
    using pop set_remove1_subset by (fastforce simp: heappop_def Let_def)
  let ?st1 = "st\<lparr>fila_prioridade := q\<rparr>"
  have 1: "inv_keys g s ?st1" using inv q by (auto simp: inv_keys_def)
  from it pop obtain dv where dv: "map_of (distancias st) u = Some dv"
    by (auto simp: iteration_def Let_def split: option.splits)
  show ?thesis
  proof (cases "dist_gt d dv")
    case True
    with it pop dv have "st' = ?st1" by (simp add: iteration_def Let_def)
    with 1 show ?thesis by simp
  next
    case False
    with it pop dv obtain items where "relax d u items ?st1 = Inr st'"
      by (auto simp: iteration_def Let_def split: option.splits)
    with 1 show ?thesis by (rule relax_keys)
  qed
qed

lemma relax_no_error:
  fixes st :: "'v state"
  shows "inv_keys g s st \<Longrightarrow> u \<in> insert s (vertices g) \<Longrightarrow>
    \<forall>(v, pw) \<in> set es. v \<in> insert s (vertices g) \<and> pw \<noteq> Infinity \<Longrightarrow>
    \<exists>st'. relax d u es st = Inr st'"
proof (induction es arbitrary: st)
  case Nil
  then show ?case by simp
next
  case (Cons e es)
  obtain v pw where e: "e = (v, pw)" by (cases e)
  with Cons.prems(3) have vin: "v \<in> insert s (vertices g)" and fin: "pw \<noteq> Infinity"
    and rest: "\<forall>(v, pw) \<in> set es. v \<in> insert s (vertices g) \<and> pw \<noteq> Infinity" by auto
  from fin obtain w where w: "pw = Fin w" by (cases pw) auto
  from vin Cons.prems(1) obtain dv where dv: "map_of (distancias st) v = Some dv"
    unfolding inv_keys_def by blast
  from Cons.prems(1,2) obtain p where pu: "map_of (caminhos st) u = Some p"
    unfolding inv_keys_def by blast
  show ?case
  proof (cases "dist_lt (d + w) dv")
    case True
    define st1 where "st1 = \<lparr>distancias = AList.update v (Fin (d + w)) (distancias st),
                     caminhos = AList.update v (p @ [v]) (caminhos st),
                     fila_prioridade = heappush (fila_prioridade st) (d + w, v)\<rparr>"
    have r: "relax d u (e # es) st = relax d u es st1"
      using e w dv True pu by (simp add: relax_Fin st1_def)
    have "inv_keys g s st1"
      unfolding st1_def using Cons.prems(1) dv by (rule inv_keys_push)
    then show ?thesis using Cons.IH [of st1] Cons.prems(2) rest r by simp
  next
    case False
    have r: "relax d u (e # es) st = relax d u es st"
      using e w dv False by (simp add: relax_Fin)
    then show ?thesis using Cons.IH [of st] Cons.prems(1,2) rest by simp
  qed
qed

lemma iteration_no_error:
  fixes st :: "'v::linorder state"
  assumes s: "s \<in> vertices g"
    and inv: "inv_keys g s st" and ne: "fila_prioridade st \<noteq> []"
    and good: "\<And>d u items v pw. (d, u) \<in> set (fila_prioridade st) \<Longrightarrow>
        map_of g u = Some items \<Longrightarrow> (v, pw) \<in> set items \<Longrightarrow>
        v \<in> vertices g \<and> pw \<noteq> Infinity"
  shows "\<exists>st'. iteration g st = Inr st'"
proof -
  obtain d u q where pop: "heappop (fila_prioridade st) = ((d, u), q)"
    by (metis prod.exhaust)
  with ne have mem: "(d, u) \<in> set (fila_prioridade st)"
    and q: "q = remove1 (d, u) (fila_prioridade st)"
    using heappop_in by blast+
  have qs: "set q \<subseteq> set (fila_prioridade st)"
    using q set_remove1_subset by fastforce
  let ?st1 = "st\<lparr>fila_prioridade := q\<rparr>"
  have 1: "inv_keys g s ?st1" using inv qs by (auto simp: inv_keys_def)
  from inv mem have uin: "u \<in> insert s (vertices g)" by (auto simp: inv_keys_def)
  with inv obtain dv where dv: "map_of (distancias st) u = Some dv"
    unfolding inv_keys_def by blast
  from uin s obtain items where items: "map_of g u = Some items"
    using vertices_map_of [of u g] by auto
  have "\<forall>(v, pw) \<in> set items. v \<in> insert s (vertices g) \<and> pw \<noteq> Infinity"
    using good [OF mem items] by auto
  with 1 uin have "\<exists>st'. relax d u items ?st1 = Inr st'"
    by (rule relax_no_error)
  then show ?thesis
    using pop dv items by (simp add: iteration_def Let_def)
qed

lemma initial_keys: "inv_keys g s (initial g s)"
  using initial_invariant by (rule invariant_keys)

lemma while_loop_rule:
  fixes st :: "'v::linorder state"
  assumes run: "while_loop g st = Some r"
    and init: "I st"
    and step: "\<And>st st'. I st \<Longrightarrow> fila_prioridade st \<noteq> [] \<Longrightarrow> iteration g st = Inr st' \<Longrightarrow> I st'"
    and final: "\<And>st. I st \<Longrightarrow> fila_prioridade st = [] \<Longrightarrow> Q (Inr (distancias st, caminhos st))"
    and err: "\<And>st e. I st \<Longrightarrow> fila_prioridade st \<noteq> [] \<Longrightarrow> iteration g st = Inl e \<Longrightarrow> Q (Inl e)"
  shows "Q r"
proof -
  have "g = g \<longrightarrow> I st \<longrightarrow> Q r"
  proof (rule while_loop.raw_induct
      [where P = "\<lambda>g' st r. g' = g \<longrightarrow> I st \<longrightarrow> Q r", OF _ run])
    fix loop :: "'v graph \<Rightarrow> 'v state \<Rightarrow> (error + 'v dist_table \<times> 'v path_table) option"
    fix grafo st r
    assume IH: "\<And>g' st r. loop g' st = Some r \<Longrightarrow> g' = g \<longrightarrow> I st \<longrightarrow> Q r"
      and body: "(if fila_prioridade st = [] then Some (Inr (distancias st, caminhos st))
                  else case iteration grafo st of Inl e \<Rightarrow> Some (Inl e)
                       | Inr st' \<Rightarrow> loop grafo st') = Some r"
    show "grafo = g \<longrightarrow> I st \<longrightarrow> Q r"
    proof (intro impI)
      assume g: "grafo = g" and inv: "I st"
      show "Q r"
      proof (cases "fila_prioridade st = []")
        case True
        with body final [OF inv] show ?thesis by auto
      next
        case False
        show ?thesis
        proof (cases "iteration g st")
          case (Inl e)
          with body False g have "r = Inl e" by simp
          with err [OF inv False Inl] show ?thesis by simp
        next
          case (Inr st')
          with body False g have "loop g st' = Some r" by simp
          moreover have "I st'" using inv False Inr by (rule step)
          ultimately show ?thesis using IH by blast
        qed
      qed
    qed
  qed
  with init show ?thesis by simp
qed

lemma while_loop_no_error:
  fixes st :: "'v::linorder state"
  assumes cl: "closed g" and iw: "integer_weights g" and s: "s \<in> vertices g"
    and run: "while_loop g st = Some r" and inv: "inv_keys g s st"
  shows "\<exists>D P. r = Inr (D, P)"
proof (rule while_loop_rule [OF run, where I = "inv_keys g s"])
  show "inv_keys g s st" by (rule inv)
next
  fix st st' :: "'v state"
  assume "inv_keys g s st" "iteration g st = Inr st'"
  then show "inv_keys g s st'" by (rule iteration_keys)
next
  fix st :: "'v state"
  show "\<exists>D P. (Inr (distancias st, caminhos st) :: error + 'v dist_table \<times> 'v path_table) = Inr (D, P)"
    by simp
next
  fix st :: "'v state" and e
  assume a: "inv_keys g s st" "fila_prioridade st \<noteq> []" "iteration g st = Inl e"
  have "\<exists>st'. iteration g st = Inr st'"
    using s a(1,2)
  proof (rule iteration_no_error)
    fix d u items v pw
    assume "map_of g u = Some items" "(v, pw) \<in> set items"
    then show "v \<in> vertices g \<and> pw \<noteq> Infinity"
      using closed_edge [OF cl] integer_weights_edge [OF iw] by blast
  qed
  with a(3) show "\<exists>D P. Inl e = Inr (D, P)" by simp
qed

lemma count_inf_update_inf:
  "map_of al v = Some Infinity \<Longrightarrow> count_inf (AList.update v (Fin e) al) < count_inf al"
  by (induction al rule: count_inf.induct) (auto split: dist.splits)

lemma count_inf_update_fin:
  "map_of al v = Some (Fin e0) \<Longrightarrow> count_inf (AList.update v (Fin e) al) = count_inf al"
  by (induction al rule: count_inf.induct) (auto split: dist.splits)

lemma sum_fin_update_fin:
  "map_of al v = Some (Fin e0) \<Longrightarrow> 0 \<le> e \<Longrightarrow> e < e0 \<Longrightarrow>
   sum_fin (AList.update v (Fin e) al) < sum_fin al"
  by (induction al rule: sum_fin.induct) (auto split: dist.splits)

lemma progress_le_refl: "progress_le a a"
  by (auto simp: progress_le_def split: prod.splits)

lemma progress_le_trans: "progress_le a b \<Longrightarrow> progress_le b c \<Longrightarrow> progress_le a c"
  by (auto simp: progress_le_def split: prod.splits)

lemma relax_progress:
  fixes st :: "'v state"
  shows "0 \<le> d \<Longrightarrow> \<forall>(v, pw) \<in> set es. dist_le (Fin 0) pw \<Longrightarrow> relax d u es st = Inr st' \<Longrightarrow>
    progress_le (progress st') (progress st)"
proof (induction es arbitrary: st)
  case Nil
  then show ?case by (simp add: progress_le_refl)
next
  case (Cons e es)
  obtain v pw where e: "e = (v, pw)" by (cases e)
  with Cons.prems(2) have w0: "dist_le (Fin 0) pw"
    and rest: "\<forall>(v, pw) \<in> set es. dist_le (Fin 0) pw" by auto
  from Cons.prems(3) have "\<exists>dv. map_of (distancias st) v = Some dv"
    unfolding e by (rule relax_Inr_lookup)
  then obtain dv where dv: "map_of (distancias st) v = Some dv" by blast
  show ?case
  proof (cases pw)
    case Infinity
    with Cons.prems(3) e dv have "relax d u es st = Inr st'"
      by (simp add: relax_Infinity split: if_splits)
    then show ?thesis using Cons.IH Cons.prems(1) rest by blast
  next
    case (Fin w)
    with w0 have w0': "0 \<le> w" by simp
    show ?thesis
    proof (cases "dist_lt (d + w) dv")
      case True
      with Cons.prems(3) e dv Fin obtain p where pu: "map_of (caminhos st) u = Some p"
        by (auto simp: relax_Fin split: option.splits)
      define st1 where "st1 = \<lparr>distancias = AList.update v (Fin (d + w)) (distancias st),
                       caminhos = AList.update v (p @ [v]) (caminhos st),
                       fila_prioridade = heappush (fila_prioridade st) (d + w, v)\<rparr>"
      have r: "relax d u es st1 = Inr st'"
        using Cons.prems(3) e dv True pu Fin by (simp add: relax_Fin st1_def)
      have "progress_le (progress st') (progress st1)"
        using Cons.IH [OF Cons.prems(1) rest r] .
      moreover have "progress_le (progress st1) (progress st)"
      proof (cases dv)
        case (Fin e0)
        with True have "d + w < e0" by simp
        with dv Fin Cons.prems(1) w0' show ?thesis
          using count_inf_update_fin [of "distancias st" v e0 "d + w"]
            sum_fin_update_fin [of "distancias st" v e0 "d + w"]
          by (simp add: progress_le_def progress_def st1_def)
      next
        case Infinity
        with dv show ?thesis
          using count_inf_update_inf [of "distancias st" v "d + w"]
          by (simp add: progress_le_def progress_def st1_def)
      qed
      ultimately show ?thesis by (rule progress_le_trans)
    next
      case False
      have r: "relax d u es st = Inr st'"
        using Cons.prems(3) e dv False Fin by (simp add: relax_Fin)
      then show ?thesis using Cons.IH Cons.prems(1) rest by blast
    qed
  qed
qed

lemma wf_progress_order: "wf progress_order"
  by (simp add: progress_order_def wf_lex_prod)

lemma progress_le_less:
  "progress_le a (c, s, l) \<Longrightarrow> l < l0 \<Longrightarrow> (a, (c, s, l0)) \<in> progress_order"
  by (auto simp: progress_le_def progress_order_def split: prod.splits)

lemma iteration_progress:
  fixes st :: "'v::linorder state"
  assumes nn: "nonneg g"
    and inv: "invariant g s st u0 []"
    and ne: "fila_prioridade st \<noteq> []"
    and it: "iteration g st = Inr st'"
  shows "(progress st', progress st) \<in> progress_order"
proof -
  obtain d u q where pop: "heappop (fila_prioridade st) = ((d, u), q)"
    by (metis prod.exhaust)
  with ne have mem: "(d, u) \<in> set (fila_prioridade st)"
    and q: "q = remove1 (d, u) (fila_prioridade st)"
    using heappop_in by blast+
  let ?st1 = "st\<lparr>fila_prioridade := q\<rparr>"
  have len: "length q < length (fila_prioridade st)"
    using mem q by (simp add: length_remove1 ne)
  from inv mem have "\<exists>du. map_of (distancias st) u = Some (Fin du) \<and> du \<le> d"
    unfolding invariant_def inv_queue_def by blast
  then obtain du where du: "map_of (distancias st) u = Some (Fin du)" "du \<le> d" by blast
  with inv have "0 \<le> du" unfolding invariant_def inv_path_def by blast
  with du have d0: "0 \<le> d" by simp
  have pst: "progress st = (count_inf (distancias st), sum_fin (distancias st), length (fila_prioridade st))"
    by (simp add: progress_def)
  have pst1: "progress ?st1 = (count_inf (distancias st), sum_fin (distancias st), length q)"
    by (simp add: progress_def)
  have "progress_le (progress st') (progress ?st1)"
  proof (cases "d > du")
    case True
    with it pop du have "st' = ?st1" by (simp add: iteration_def Let_def)
    then show ?thesis by (simp add: progress_le_refl)
  next
    case False
    with it pop du obtain items where items: "map_of g u = Some items"
      and r: "relax d u items ?st1 = Inr st'"
      by (auto simp: iteration_def Let_def split: option.splits)
    have "\<forall>(v, pw) \<in> set items. dist_le (Fin 0) pw"
      using nonneg_edge [OF nn items] by auto
    with d0 show ?thesis using r by (rule relax_progress)
  qed
  then show ?thesis unfolding pst pst1 using len by (rule progress_le_less)
qed

lemma while_loop_terminates:
  fixes st :: "'v::linorder state"
  assumes wf: "wf_graph g" and nn: "nonneg g"
  shows "invariant g s st u [] \<Longrightarrow> \<exists>r. while_loop g st = Some r"
proof (induction st rule: wf_induct_rule [OF wf_inv_image [OF wf_progress_order, of progress]])
  case (1 st)
  show ?case
  proof (cases "fila_prioridade st = []")
    case True
    then show ?thesis by (subst while_loop.simps) simp
  next
    case False
    show ?thesis
    proof (cases "iteration g st")
      case (Inl e)
      with False show ?thesis by (subst while_loop.simps) simp
    next
      case (Inr st')
      have "invariant g s st' u []"
        using wf nn "1.prems" False Inr by (rule iteration_invariant)
      moreover have "(st', st) \<in> inv_image progress_order progress"
        using iteration_progress [OF nn "1.prems" False Inr] by simp
      ultimately have "\<exists>r. while_loop g st' = Some r"
        using "1.IH" by blast
      then show ?thesis using False Inr by (subst while_loop.simps) simp
    qed
  qed
qed

lemma dijkstra_halts:
  fixes g :: "'v::linorder graph"
  assumes "wf_graph g" "nonneg g"
  shows "\<exists>r. dijkstra g s = Some r"
  unfolding dijkstra_def
  using assms initial_invariant [of g s s] by (rule while_loop_terminates)

lemma closed_reach_closed: "closed g \<Longrightarrow> reach_closed g s"
  unfolding reach_closed_def
proof (intro allI impI)
  fix u p items v w
  assume cl: "closed g"
    and a: "route g s u p \<and> map_of g u = Some items \<and> (v, w) \<in> set items"
  from a have "map_of g u = Some items" "(v, w) \<in> set items" by simp_all
  with cl show "v \<in> vertices g" by (rule closed_edge)
qed

lemma invariant_no_error:
  fixes st :: "'v::linorder state"
  assumes iw: "integer_weights g" and rc: "reach_closed g s" and s: "s \<in> vertices g"
    and inv: "invariant g s st u []" and ne: "fila_prioridade st \<noteq> []"
  shows "\<exists>st'. iteration g st = Inr st'"
  using s invariant_keys [OF inv] ne
proof (rule iteration_no_error)
  fix d x items v pw
  assume mem: "(d, x) \<in> set (fila_prioridade st)" and items: "map_of g x = Some items"
    and v: "(v, pw) \<in> set items"
  from inv mem have "\<exists>dx. map_of (distancias st) x = Some (Fin dx) \<and> dx \<le> d"
    unfolding invariant_def inv_queue_def by blast
  then obtain dx where "map_of (distancias st) x = Some (Fin dx)" by blast
  with inv obtain p where "route g s x p" unfolding invariant_def inv_path_def by blast
  with rc items v have "v \<in> vertices g" unfolding reach_closed_def by blast
  moreover have "pw \<noteq> Infinity" using iw items v by (rule integer_weights_edge)
  ultimately show "v \<in> vertices g \<and> pw \<noteq> Infinity" by simp
qed

lemma while_loop_returns:
  fixes st :: "'v::linorder state"
  assumes wf: "wf_graph g" and nn: "nonneg g" and iw: "integer_weights g"
    and rc: "reach_closed g s" and s: "s \<in> vertices g"
  shows "invariant g s st u [] \<Longrightarrow> \<exists>D P. while_loop g st = Some (Inr (D, P))"
proof (induction st rule: wf_induct_rule [OF wf_inv_image [OF wf_progress_order, of progress]])
  case (1 st)
  show ?case
  proof (cases "fila_prioridade st = []")
    case True
    then show ?thesis by (subst while_loop.simps) simp
  next
    case False
    from invariant_no_error [OF iw rc s "1.prems" False]
    obtain st' where it: "iteration g st = Inr st'" by blast
    have "invariant g s st' u []"
      using wf nn "1.prems" False it by (rule iteration_invariant)
    moreover have "(st', st) \<in> inv_image progress_order progress"
      using iteration_progress [OF nn "1.prems" False it] by simp
    ultimately have "\<exists>D P. while_loop g st' = Some (Inr (D, P))"
      using "1.IH" by blast
    then show ?thesis using False it by (subst while_loop.simps) simp
  qed
qed

lemma dijkstra_returns_reach:
  fixes g :: "'v::linorder graph"
  assumes "wf_graph g" "nonneg g" "integer_weights g" "reach_closed g s" "s \<in> vertices g"
  shows "\<exists>D P. dijkstra g s = Some (Inr (D, P))"
  unfolding dijkstra_def
  using assms initial_invariant [of g s s] by (rule while_loop_returns)

lemma dijkstra_returns:
  fixes g :: "'v::linorder graph"
  assumes "wf_graph g" "nonneg g" "integer_weights g" "closed g" "s \<in> vertices g"
  shows "\<exists>D P. dijkstra g s = Some (Inr (D, P))"
  using assms(1-3) closed_reach_closed [OF assms(4)] assms(5) by (rule dijkstra_returns_reach)

lemma dijkstra_final:
  fixes g :: "'v::linorder graph"
  assumes wf: "wf_graph g" and nn: "nonneg g"
    and run: "dijkstra g s = Some (Inr (D, P))"
  shows "\<exists>st. invariant g s st s [] \<and> fila_prioridade st = [] \<and>
              distancias st = D \<and> caminhos st = P"
proof -
  let ?Q = "\<lambda>r :: error + 'v dist_table \<times> 'v path_table. \<forall>D P. r = Inr (D, P) \<longrightarrow> (\<exists>st. invariant g s st s [] \<and> fila_prioridade st = [] \<and>
              distancias st = D \<and> caminhos st = P)"
  from run have run': "while_loop g (initial g s) = Some (Inr (D, P))"
    by (simp add: dijkstra_def)
  have "?Q (Inr (D, P))"
  proof (rule while_loop_rule [OF run', where I = "\<lambda>st. invariant g s st s []" and Q = ?Q])
    show "invariant g s (initial g s) s []" by (rule initial_invariant)
  next
    fix st st' :: "'v state"
    assume "invariant g s st s []" "fila_prioridade st \<noteq> []" "iteration g st = Inr st'"
    with wf nn show "invariant g s st' s []" by (rule iteration_invariant)
  next
    fix st :: "'v state"
    assume "invariant g s st s []" "fila_prioridade st = []"
    then show "?Q (Inr (distancias st, caminhos st))" by auto
  next
    fix st :: "'v state" and e
    show "?Q (Inl e)" by simp
  qed
  then show ?thesis by simp
qed

lemma route_weight:
  "route g s v p \<Longrightarrow> \<exists>w. path_weight g p = Some w"
  by (auto simp: route_def)

lemma final_least_weight:
  fixes st :: "'v state"
  assumes inv: "invariant g s st u []" and q: "fila_prioridade st = []"
    and x: "map_of (distancias st) v = Some x"
  shows "least_weight g s v x"
proof -
  from inv have isrc: "inv_src s st" and ipath: "inv_path g s st"
    and irel: "inv_relaxed g st u []"
    by (simp_all add: invariant_def)
  from isrc have s0: "map_of (distancias st) s = Some (Fin 0)" by (simp add: inv_src_def)
  have bound: "\<exists>dv. map_of (distancias st) v = Some (Fin dv) \<and> dv \<le> w"
    if "route g s v p" "path_weight g p = Some (Fin w)" for p w
    using relaxed_lower_bound [OF irel q s0, of p w] that by (simp add: route_def)
  show ?thesis
  proof (cases x)
    case (Fin d)
    with x ipath have "\<exists>p. route g s v p \<and> path_weight g p = Some (Fin d)"
      unfolding inv_path_def by blast
    moreover have "dist_le (Fin d) w" if "route g s v p" "path_weight g p = Some w" for p w
    proof (cases w)
      case (Fin c)
      with bound that x \<open>x = Fin d\<close> show ?thesis by fastforce
    next
      case Infinity
      then show ?thesis by simp
    qed
    ultimately show ?thesis using Fin by (auto simp: least_weight_def)
  next
    case Infinity
    have "path_weight g p = Some Infinity" if r: "route g s v p" for p
    proof -
      from r have "\<exists>w. path_weight g p = Some w" by (rule route_weight)
      then obtain w where w: "path_weight g p = Some w" by blast
      show ?thesis
      proof (cases w)
        case (Fin c)
        with bound r w x Infinity show ?thesis by fastforce
      next
        case inf: Infinity
        with w show ?thesis by simp
      qed
    qed
    then show ?thesis using Infinity by (simp add: least_weight_def)
  qed
qed

lemma dijkstra_entry_least:
  fixes g :: "'v::linorder graph"
  assumes wf: "wf_graph g" and nn: "nonneg g"
    and run: "dijkstra g s = Some (Inr (D, P))" and x: "map_of D v = Some x"
  shows "least_weight g s v x"
proof -
  from dijkstra_final [OF wf nn run] obtain st where
    st: "invariant g s st s []" "fila_prioridade st = []" "distancias st = D"
    by blast
  with x show ?thesis using final_least_weight [OF st(1,2), of v x] by simp
qed

lemma integer_path_weight:
  assumes iw: "integer_weights g"
  shows "path_weight g p = Some w \<Longrightarrow> w \<noteq> Infinity"
proof (induction p arbitrary: w rule: induct_list012)
  case (3 a b p)
  from "3.prems" obtain w1 w2 where w: "peso g a b = Some w1"
    "path_weight g (b # p) = Some w2" "w = dist_add w1 w2"
    by (auto split: option.splits)
  from w(1) obtain items where "map_of g a = Some items" "map_of items b = Some w1"
    by (auto simp: peso_def split: option.splits)
  then have "w1 \<noteq> Infinity" using integer_weights_edge [OF iw] map_of_SomeD by fastforce
  moreover from w(2) have "w2 \<noteq> Infinity" by (rule "3.IH"(2))
  ultimately show ?case using w(3) by (cases w1; cases w2) auto
qed auto

lemma least_weight_Infinity:
  "integer_weights g \<Longrightarrow> least_weight g s v Infinity \<Longrightarrow> \<not> route g s v p"
  using integer_path_weight [of g p Infinity]
  by (auto simp: least_weight_def)

lemma path_weight_edges:
  "path_weight g p \<noteq> None \<longleftrightarrow> (\<forall>(a, b) \<in> set (arestas_caminho p). peso g a b \<noteq> None)"
  by (induction g p rule: path_weight.induct)
    (auto simp: arestas_caminho_def split: option.splits)

lemma path_weight_sub:
  assumes sub: "\<And>x y w. peso g' x y = Some w \<Longrightarrow> peso g x y = Some w"
  shows "path_weight g' p = Some w \<Longrightarrow> path_weight g p = Some w"
proof (induction p arbitrary: w rule: induct_list012)
  case (3 a b p)
  from "3.prems" obtain w1 w2 where w: "peso g' a b = Some w1"
    "path_weight g' (b # p) = Some w2" "w = dist_add w1 w2"
    by (auto split: option.splits)
  from w(1) have "peso g a b = Some w1" by (rule sub)
  moreover from w(2) have "path_weight g (b # p) = Some w2" by (rule "3.IH"(2))
  ultimately show ?case using w(3) by simp
qed simp_all

lemma least_weight_sub:
  assumes sub: "\<And>x y w. peso g' x y = Some w \<Longrightarrow> peso g x y = Some w"
    and l: "least_weight g s v x" and l': "least_weight g' s v x'"
  shows "dist_le x x'"
proof (cases x')
  case (Fin d')
  with l' obtain p where p: "route g' s v p" "path_weight g' p = Some (Fin d')"
    by (auto simp: least_weight_def)
  then have w: "path_weight g p = Some (Fin d')" using path_weight_sub [OF sub] by blast
  with p have r: "route g s v p" by (simp add: route_def)
  show ?thesis
  proof (cases x)
    case (Fin d)
    with l have "\<forall>p w. route g s v p \<and> path_weight g p = Some w \<longrightarrow> dist_le (Fin d) w"
      by (simp add: least_weight_def)
    with r w have "dist_le (Fin d) (Fin d')" by blast
    then show ?thesis using Fin \<open>x' = Fin d'\<close> by simp
  next
    case Infinity
    with l r w show ?thesis by (auto simp: least_weight_def)
  qed
next
  case Infinity
  then show ?thesis by simp
qed

lemma map_of_remove_edge:
  "map_of (remove_edge g a b) x =
     map_option (\<lambda>items. if x = a then AList.delete b items else items) (map_of g x)"
  by (induction g) (auto simp: remove_edge_def)

lemma peso_remove_edge:
  "peso (remove_edge g a b) x y = (if x = a \<and> y = b then None else peso g x y)"
  by (auto simp: peso_def map_of_remove_edge AList.delete_conv' split: option.splits)

lemma vertices_remove_edge: "vertices (remove_edge g a b) = vertices g"
  by (force simp: vertices_def remove_edge_def)

lemma wf_remove_edge: "wf_graph g \<Longrightarrow> wf_graph (remove_edge g a b)"
  unfolding wf_graph_def is_dict_def remove_edge_def
  by (auto simp: comp_def case_prod_unfold AList.distinct_delete)

lemma remove_edge_items:
  "(u, items') \<in> set (remove_edge g a b) \<Longrightarrow>
   \<exists>items. (u, items) \<in> set g \<and> set items' \<subseteq> set items"
  by (auto simp: remove_edge_def AList.delete_eq split: if_splits)

lemma nonneg_remove_edge: "nonneg g \<Longrightarrow> nonneg (remove_edge g a b)"
  unfolding nonneg_def
proof (intro ballI, clarify)
  fix u items' v w
  assume nn: "\<forall>(u, items) \<in> set g. \<forall>(v, w) \<in> set items. dist_le (Fin 0) w"
    and u: "(u, items') \<in> set (remove_edge g a b)" and v: "(v, w) \<in> set items'"
  from remove_edge_items [OF u] obtain items where "(u, items) \<in> set g" "set items' \<subseteq> set items"
    by blast
  with nn v show "dist_le (Fin 0) w" by blast
qed

lemma integer_weights_remove_edge: "integer_weights g \<Longrightarrow> integer_weights (remove_edge g a b)"
  unfolding integer_weights_def
proof (intro ballI, clarify)
  fix u items' v
  assume iw: "\<forall>(u, items) \<in> set g. \<forall>(v, w) \<in> set items. w \<noteq> Infinity"
    and u: "(u, items') \<in> set (remove_edge g a b)" and v: "(v, Infinity) \<in> set items'"
  from remove_edge_items [OF u] obtain items where "(u, items) \<in> set g" "set items' \<subseteq> set items"
    by blast
  with iw v show False by blast
qed

lemma closed_remove_edge: "closed g \<Longrightarrow> closed (remove_edge g a b)"
  unfolding closed_def vertices_remove_edge
proof (intro ballI, clarify)
  fix u items' v w
  assume cl: "\<forall>(u, items) \<in> set g. \<forall>(v, w) \<in> set items. v \<in> vertices g"
    and u: "(u, items') \<in> set (remove_edge g a b)" and v: "(v, w) \<in> set items'"
  from remove_edge_items [OF u] obtain items where "(u, items) \<in> set g" "set items' \<subseteq> set items"
    by blast
  with cl v show "v \<in> vertices g" by blast
qed

lemma set_update_subset: "set (AList.update k v al) \<subseteq> insert (k, v) (set al)"
  by (induction al) auto

lemma map_of_add_edge:
  "map_of (add_edge g a b w) x =
     map_option (\<lambda>items. if x = a then AList.update b w items else items) (map_of g x)"
  by (induction g) (auto simp: add_edge_def)

lemma peso_add_edge:
  "peso (add_edge g a b w) x y =
     (if x = a \<and> y = b \<and> a \<in> vertices g then Some w else peso g x y)"
  using vertices_map_of [of a g] map_of_vertices [of g a]
  by (auto simp: peso_def map_of_add_edge AList.update_conv' split: option.splits)

lemma vertices_add_edge: "vertices (add_edge g a b w) = vertices g"
  by (force simp: vertices_def add_edge_def)

lemma wf_add_edge: "wf_graph g \<Longrightarrow> wf_graph (add_edge g a b w)"
  unfolding wf_graph_def is_dict_def add_edge_def
  by (auto simp: comp_def case_prod_unfold AList.distinct_update)

lemma add_edge_items:
  "(u, items') \<in> set (add_edge g a b w) \<Longrightarrow>
   \<exists>items. (u, items) \<in> set g \<and> set items' \<subseteq> insert (b, w) (set items)"
proof -
  assume "(u, items') \<in> set (add_edge g a b w)"
  then obtain items where it: "(u, items) \<in> set g"
    and eq: "items' = (if u = a then AList.update b w items else items)"
    by (auto simp: add_edge_def)
  from eq have "set items' \<subseteq> insert (b, w) (set items)"
    using set_update_subset [of b w items] by (auto split: if_splits)
  with it show ?thesis by blast
qed

lemma nonneg_add_edge: "nonneg g \<Longrightarrow> dist_le (Fin 0) w \<Longrightarrow> nonneg (add_edge g a b w)"
  unfolding nonneg_def
proof (intro ballI, clarify)
  fix u items' v w'
  assume nn: "\<forall>(u, items) \<in> set g. \<forall>(v, w) \<in> set items. dist_le (Fin 0) w"
    and w: "dist_le (Fin 0) w"
    and u: "(u, items') \<in> set (add_edge g a b w)" and v: "(v, w') \<in> set items'"
  from add_edge_items [OF u] obtain items where
    "(u, items) \<in> set g" "set items' \<subseteq> insert (b, w) (set items)"
    by blast
  with nn v w show "dist_le (Fin 0) w'" by blast
qed

lemma integer_weights_add_edge:
  "integer_weights g \<Longrightarrow> w \<noteq> Infinity \<Longrightarrow> integer_weights (add_edge g a b w)"
  unfolding integer_weights_def
proof (intro ballI, clarify)
  fix u items' v
  assume iw: "\<forall>(u, items) \<in> set g. \<forall>(v, w) \<in> set items. w \<noteq> Infinity"
    and w: "w \<noteq> Infinity"
    and u: "(u, items') \<in> set (add_edge g a b w)" and v: "(v, Infinity) \<in> set items'"
  from add_edge_items [OF u] obtain items where
    "(u, items) \<in> set g" "set items' \<subseteq> insert (b, w) (set items)"
    by blast
  with iw v w show False by blast
qed

lemma closed_add_edge: "closed g \<Longrightarrow> b \<in> vertices g \<Longrightarrow> closed (add_edge g a b w)"
  unfolding closed_def vertices_add_edge
proof (intro ballI, clarify)
  fix u items' v w'
  assume cl: "\<forall>(u, items) \<in> set g. \<forall>(v, w) \<in> set items. v \<in> vertices g"
    and b: "b \<in> vertices g"
    and u: "(u, items') \<in> set (add_edge g a b w)" and v: "(v, w') \<in> set items'"
  from add_edge_items [OF u] obtain items where
    "(u, items) \<in> set g" "set items' \<subseteq> insert (b, w) (set items)"
    by blast
  with cl v b show "v \<in> vertices g" by blast
qed

lemma relax_Cons:
  "relax d u ((v, pw) # es) st =
     (case pw of
        Infinity \<Rightarrow>
          if too_large d then Inl OverflowError
          else (case map_of (distancias st) v of
                  None \<Rightarrow> Inl KeyError
                | Some dv \<Rightarrow> relax d u es st)
      | Fin w \<Rightarrow>
          (case map_of (distancias st) v of
             None \<Rightarrow> Inl KeyError
           | Some dv \<Rightarrow>
               if dist_lt (d + w) dv then
                 (case map_of (caminhos st) u of
                    None \<Rightarrow> Inl KeyError
                  | Some p \<Rightarrow>
                      relax d u es
                        \<lparr>distancias = AList.update v (Fin (d + w)) (distancias st),
                         caminhos = AList.update v (p @ [v]) (caminhos st),
                         fila_prioridade = heappush (fila_prioridade st) (d + w, v)\<rparr>)
               else relax d u es st))"
  by (cases pw) (simp_all split: option.splits)

lemma relax_step:
  "relax d u (x # es) st =
     (case relax d u [x] st of Inl e \<Rightarrow> Inl e | Inr st1 \<Rightarrow> relax d u es st1)"
proof -
  obtain v pw where x: "x = (v, pw)" by (cases x)
  show ?thesis unfolding x
    by (cases pw) (simp_all split: option.splits)
qed

lemma relax_missing_key:
  fixes st :: "'v state"
  shows "inv_keys g s st \<Longrightarrow> (v, w) \<in> set es \<Longrightarrow> v \<notin> insert s (vertices g) \<Longrightarrow>
    relax d u es st \<noteq> Inr st'"
proof (induction es arbitrary: st)
  case Nil
  then show ?case by simp
next
  case (Cons e es)
  obtain v' w' where e: "e = (v', w')" by (cases e)
  show ?case
  proof
    assume r: "relax d u (e # es) st = Inr st'"
    then have "\<exists>dv. map_of (distancias st) v' = Some dv"
      unfolding e by (rule relax_Inr_lookup)
    then obtain dv where dv: "map_of (distancias st) v' = Some dv" by blast
    then have "v' \<in> insert s (vertices g)" using Cons.prems(1)
      by (auto simp: inv_keys_def)
    with Cons.prems(2,3) e have vin: "(v, w) \<in> set es" by auto
    from r obtain st1 where st1: "relax d u [e] st = Inr st1"
      and r1: "relax d u es st1 = Inr st'"
      by (subst (asm) relax_step) (auto split: sum.splits)
    from Cons.prems(1) st1 have "inv_keys g s st1" by (rule relax_keys)
    then have "relax d u es st1 \<noteq> Inr st'" using vin Cons.prems(3) by (rule Cons.IH)
    with r1 show False by simp
  qed
qed

lemma relax_error_key:
  fixes st :: "'v state"
  shows "\<forall>(v, pw) \<in> set es. pw \<noteq> Infinity \<Longrightarrow> relax d u es st = Inl e \<Longrightarrow> e = KeyError"
proof (induction es arbitrary: st)
  case Nil
  then show ?case by simp
next
  case (Cons x es)
  obtain v pw where x: "x = (v, pw)" by (cases x)
  with Cons.prems(1) obtain w where w: "pw = Fin w" by (cases pw) auto
  from Cons.prems(1) have rest: "\<forall>(v, pw) \<in> set es. pw \<noteq> Infinity" by simp
  show ?case
  proof (cases "map_of (distancias st) v")
    case None
    with Cons.prems(2) x w show ?thesis by simp
  next
    case (Some dv)
    show ?thesis
    proof (cases "dist_lt (d + w) dv")
      case False
      with Cons.prems(2) x w Some have "relax d u es st = Inl e" by (simp add: relax_Fin)
      with rest show ?thesis by (rule Cons.IH)
    next
      case True
      show ?thesis
      proof (cases "map_of (caminhos st) u")
        case None
        with Cons.prems(2) x w Some True show ?thesis by (simp add: relax_Fin)
      next
        case p: (Some p)
        with Cons.prems(2) x w Some True
        have "relax d u es
               \<lparr>distancias = AList.update v (Fin (d + w)) (distancias st),
                caminhos = AList.update v (p @ [v]) (caminhos st),
                fila_prioridade = heappush (fila_prioridade st) (d + w, v)\<rparr> = Inl e"
          by (simp add: relax_Fin)
        with rest show ?thesis by (rule Cons.IH)
      qed
    qed
  qed
qed

lemma iteration_error_key:
  fixes st :: "'v::linorder state"
  assumes iw: "integer_weights g" and it: "iteration g st = Inl e"
  shows "e = KeyError"
proof -
  obtain d u q where pop: "heappop (fila_prioridade st) = ((d, u), q)"
    by (metis prod.exhaust)
  show ?thesis
  proof (cases "map_of (distancias st) u")
    case None
    with it pop show ?thesis by (simp add: iteration_def Let_def)
  next
    case (Some dv)
    show ?thesis
    proof (cases "map_of g u")
      case None
      with it pop Some show ?thesis by (simp add: iteration_def Let_def split: if_splits)
    next
      case items: (Some items)
      with it pop Some have "relax d u items (st\<lparr>fila_prioridade := q\<rparr>) = Inl e"
        by (simp add: iteration_def Let_def split: if_splits)
      moreover have "\<forall>(v, pw) \<in> set items. pw \<noteq> Infinity"
        using integer_weights_edge [OF iw items] by auto
      ultimately show ?thesis by (rule relax_error_key [rotated])
    qed
  qed
qed

lemma dijkstra_error_key:
  fixes g :: "'v::linorder graph"
  assumes iw: "integer_weights g" and run: "dijkstra g s = Some (Inl e)"
  shows "e = KeyError"
proof -
  let ?Q = "\<lambda>r :: error + 'v dist_table \<times> 'v path_table. \<forall>e. r = Inl e \<longrightarrow> e = KeyError"
  from run have run': "while_loop g (initial g s) = Some (Inl e)"
    by (simp add: dijkstra_def)
  have "?Q (Inl e)"
  proof (rule while_loop_rule [OF run', where I = "\<lambda>st. True" and Q = ?Q])
    fix st :: "'v state" and e
    assume "iteration g st = Inl e"
    with iw have "e = KeyError" by (rule iteration_error_key)
    then show "?Q (Inl e)" by simp
  qed simp_all
  then show ?thesis by simp
qed

lemma final_reach_closed:
  fixes st :: "'v state"
  assumes iw: "integer_weights g" and s: "s \<in> vertices g"
    and inv: "invariant g s st u []" and q: "fila_prioridade st = []"
  shows "reach_closed g s"
  unfolding reach_closed_def
proof (intro allI impI)
  fix x p items v pw
  assume a: "route g s x p \<and> map_of g x = Some items \<and> (v, pw) \<in> set items"
  from inv have isrc: "inv_src s st" and idom: "inv_dom g s st"
    and irel: "inv_relaxed g st u []"
    by (simp_all add: invariant_def)
  from isrc have s0: "map_of (distancias st) s = Some (Fin 0)" by (simp add: inv_src_def)
  from a have "\<exists>w. path_weight g p = Some w" by (simp add: route_def)
  then obtain w where w: "path_weight g p = Some w" by blast
  with iw have "w \<noteq> Infinity" by (rule integer_path_weight)
  then obtain c where c: "w = Fin c" by (cases w) auto
  from relaxed_lower_bound [OF irel q s0, of p c] a w c
  obtain dx where dx: "map_of (distancias st) x = Some (Fin dx)"
    by (auto simp: route_def)
  from a have items: "map_of g x = Some items" and vin: "(v, pw) \<in> set items" by simp_all
  from irel dx q items
  have "\<forall>(v, pw) \<in> set items. relaxed (distancias st) dx v pw"
    unfolding inv_relaxed_def by simp
  with vin have rel: "relaxed (distancias st) dx v pw" by blast
  from iw items vin have "pw \<noteq> Infinity" by (rule integer_weights_edge)
  then obtain w' where "pw = Fin w'" by (cases pw) auto
  with rel have "v \<in> dom (map_of (distancias st))"
    unfolding relaxed_def by auto
  with idom s show "v \<in> vertices g" by (auto simp: inv_dom_def)
qed

lemma first_iteration:
  fixes g :: "'v::linorder graph"
  shows "iteration g (initial g s) =
     (case map_of g s of None \<Rightarrow> Inl KeyError
      | Some items \<Rightarrow> relax 0 s items ((initial g s)\<lparr>fila_prioridade := []\<rparr>))"
proof -
  have "map_of (distancias (initial g s)) s = Some (Fin 0)"
    by (simp add: initial_def AList.update_conv')
  moreover have "heappop (fila_prioridade (initial g s)) = ((0, s), [])"
    by (simp add: initial_def heappop_def)
  ultimately show ?thesis
    by (simp add: iteration_def Let_def)
qed

lemma dijkstra_first_error:
  fixes g :: "'v::linorder graph"
  assumes "iteration g (initial g s) = Inl e"
  shows "dijkstra g s = Some (Inl e)"
  unfolding dijkstra_def
  using assms by (subst while_loop.simps) (simp add: initial_def)

lemma tuple_lt_trans: "tuple_lt a b \<Longrightarrow> tuple_lt b c \<Longrightarrow> tuple_lt a c"
  by (cases a; cases b; cases c) auto

lemma tuple_lt_total: "\<not> tuple_lt a b \<Longrightarrow> \<not> tuple_lt b a \<Longrightarrow> a = b"
  by (cases a; cases b) auto

lemma heap_min_least: "y \<in> insert m (set xs) \<Longrightarrow> \<not> tuple_lt y (heap_min m xs)"
proof (induction xs arbitrary: m y)
  case Nil
  then show ?case by (cases m) auto
next
  case (Cons x xs)
  show ?case
  proof (cases "tuple_lt x m")
    case True
    have "\<not> tuple_lt y (heap_min x xs)"
    proof (cases "y = m")
      case ym: True
      have "\<not> tuple_lt x (heap_min x xs)" using Cons.IH [where y = x and m = x] by simp
      with True ym show ?thesis
        using tuple_lt_trans [of x m "heap_min x xs"] by blast
    next
      case False
      with Cons.prems show ?thesis using Cons.IH [where y = y and m = x] by auto
    qed
    with True show ?thesis by simp
  next
    case False
    have "\<not> tuple_lt y (heap_min m xs)"
    proof (cases "y = x")
      case yx: True
      have m: "\<not> tuple_lt m (heap_min m xs)" using Cons.IH [where y = m and m = m] by simp
      show ?thesis
      proof
        assume "tuple_lt y (heap_min m xs)"
        with yx have 1: "tuple_lt x (heap_min m xs)" by simp
        have "heap_min m xs \<noteq> m" using 1 False by auto
        with m have "tuple_lt (heap_min m xs) m"
          using tuple_lt_total [of m "heap_min m xs"] by auto
        with 1 have "tuple_lt x m" by (rule tuple_lt_trans)
        with False show False by simp
      qed
    next
      case False
      with Cons.prems show ?thesis using Cons.IH [where y = y and m = m] by auto
    qed
    with False show ?thesis by simp
  qed
qed

lemma heappop_least:
  assumes "q \<noteq> []"
  shows "fst (heappop q) \<in> set q \<and> (\<forall>y \<in> set q. \<not> tuple_lt y (fst (heappop q)))"
proof -
  from assms obtain x xs where q: "q = x # xs" by (cases q) auto
  then show ?thesis
    using heap_min_in [of x xs] heap_min_least [of _ x xs]
    by (auto simp: heappop_def Let_def)
qed

lemma heappop_mset:
  assumes "q \<noteq> []" and "mset q = mset q'"
  shows "fst (heappop q) = fst (heappop q') \<and> mset (snd (heappop q)) = mset (snd (heappop q'))"
proof -
  from assms have q': "q' \<noteq> []" by auto
  from assms(2) have s: "set q = set q'" by (rule mset_eq_setD)
  have "fst (heappop q) = fst (heappop q')"
    using heappop_least [OF assms(1)] heappop_least [OF q'] s
    by (auto intro: tuple_lt_total)
  moreover have "snd (heappop q) = remove1 (fst (heappop q)) q"
    "snd (heappop q') = remove1 (fst (heappop q')) q'"
    by (simp_all add: heappop_def Let_def)
  ultimately show ?thesis using assms(2) by simp
qed

lemma relax_same_items:
  fixes st1 st2 :: "'v state"
  shows "same_items st1 st2 \<Longrightarrow>
    rel_sum (=) same_items (relax d u es st1) (relax d u es st2)"
proof (induction es arbitrary: st1 st2)
  case Nil
  then show ?case by simp
next
  case (Cons e es)
  obtain v pw where e: "e = (v, pw)" by (cases e)
  from Cons.prems have eq: "distancias st1 = distancias st2" "caminhos st1 = caminhos st2"
    "mset (fila_prioridade st1) = mset (fila_prioridade st2)"
    by (simp_all add: same_items_def)
  note IH = Cons.IH [OF Cons.prems]
  show ?case
  proof (cases "map_of (distancias st1) v")
    case None
    with e eq show ?thesis by (cases pw) simp_all
  next
    case (Some dv)
    show ?thesis
    proof (cases pw)
      case Infinity
      with e eq Some IH show ?thesis by (simp add: relax_Infinity)
    next
      case (Fin w)
      show ?thesis
      proof (cases "dist_lt (d + w) dv")
        case False
        with e eq Some Fin IH show ?thesis by (simp add: relax_Fin)
      next
        case True
        show ?thesis
        proof (cases "map_of (caminhos st1) u")
          case None
          with e eq Some Fin True show ?thesis by (simp add: relax_Fin)
        next
          case p: (Some p)
          let ?n = "\<lambda>st. \<lparr>distancias = AList.update v (Fin (d + w)) (distancias st),
                       caminhos = AList.update v (p @ [v]) (caminhos st),
                       fila_prioridade = heappush (fila_prioridade st) (d + w, v)\<rparr>"
          have "same_items (?n st1) (?n st2)"
            using eq by (simp add: same_items_def heappush_def)
          then have "rel_sum (=) same_items (relax d u es (?n st1)) (relax d u es (?n st2))"
            by (rule Cons.IH)
          then show ?thesis
            using e eq Some Fin True p by (simp add: relax_Fin)
        qed
      qed
    qed
  qed
qed

lemma iteration_same_items:
  fixes st1 st2 :: "'v::linorder state"
  assumes same: "same_items st1 st2" and ne: "fila_prioridade st1 \<noteq> []"
  shows "rel_sum (=) same_items (iteration g st1) (iteration g st2)"
proof -
  from same have eq: "distancias st1 = distancias st2" "caminhos st1 = caminhos st2"
    "mset (fila_prioridade st1) = mset (fila_prioridade st2)"
    by (simp_all add: same_items_def)
  obtain d u q1 where p1: "heappop (fila_prioridade st1) = ((d, u), q1)"
    by (metis prod.exhaust)
  obtain m2 q2 where p2: "heappop (fila_prioridade st2) = (m2, q2)"
    by (metis prod.exhaust)
  from heappop_mset [OF ne eq(3)] p1 p2 have m2: "m2 = (d, u)" and q: "mset q1 = mset q2"
    by simp_all
  let ?s1 = "st1\<lparr>fila_prioridade := q1\<rparr>" and ?s2 = "st2\<lparr>fila_prioridade := q2\<rparr>"
  have s: "same_items ?s1 ?s2" using eq q by (simp add: same_items_def)
  show ?thesis
  proof (cases "map_of (distancias st1) u")
    case None
    with p1 p2 m2 eq show ?thesis by (simp add: iteration_def Let_def)
  next
    case (Some dv)
    show ?thesis
    proof (cases "dist_gt d dv")
      case True
      with p1 p2 m2 eq Some s show ?thesis by (simp add: iteration_def Let_def)
    next
      case False
      show ?thesis
      proof (cases "map_of g u")
        case None
        with p1 p2 m2 eq Some False show ?thesis by (simp add: iteration_def Let_def)
      next
        case (Some items)
        with p1 p2 m2 eq \<open>map_of (distancias st1) u = Some dv\<close> False
          relax_same_items [OF s, of d u items]
        show ?thesis by (simp add: iteration_def Let_def)
      qed
    qed
  qed
qed

lemma while_loop_same_items_Some:
  fixes st1 :: "'v::linorder state"
  assumes run: "while_loop g st1 = Some r"
  shows "same_items st1 st2 \<Longrightarrow> while_loop g st2 = Some r"
proof -
  have "g = g \<longrightarrow> (\<forall>st2. same_items st1 st2 \<longrightarrow> while_loop g st2 = Some r)"
  proof (rule while_loop.raw_induct
      [where P = "\<lambda>g' st r. g' = g \<longrightarrow> (\<forall>st2. same_items st st2 \<longrightarrow> while_loop g st2 = Some r)",
        OF _ run])
    fix loop :: "'v graph \<Rightarrow> 'v state \<Rightarrow> (error + 'v dist_table \<times> 'v path_table) option"
    fix grafo st r
    assume IH: "\<And>g' st r. loop g' st = Some r \<Longrightarrow>
        g' = g \<longrightarrow> (\<forall>st2. same_items st st2 \<longrightarrow> while_loop g st2 = Some r)"
      and body: "(if fila_prioridade st = [] then Some (Inr (distancias st, caminhos st))
                  else case iteration grafo st of Inl e \<Rightarrow> Some (Inl e)
                       | Inr st' \<Rightarrow> loop grafo st') = Some r"
    show "grafo = g \<longrightarrow> (\<forall>st2. same_items st st2 \<longrightarrow> while_loop g st2 = Some r)"
    proof (intro impI allI)
      fix st2
      assume g: "grafo = g" and same: "same_items st st2"
      from same have eq: "distancias st = distancias st2" "caminhos st = caminhos st2"
        "mset (fila_prioridade st) = mset (fila_prioridade st2)"
        by (simp_all add: same_items_def)
      show "while_loop g st2 = Some r"
      proof (cases "fila_prioridade st = []")
        case True
        with eq(3) have "fila_prioridade st2 = []" by simp
        with body True eq show ?thesis by (subst while_loop.simps) auto
      next
        case False
        with eq(3) have ne2: "fila_prioridade st2 \<noteq> []" by auto
        note rel = iteration_same_items [OF same False, of g]
        show ?thesis
        proof (cases "iteration g st")
          case (Inl e)
          with rel have "iteration g st2 = Inl e" by (cases "iteration g st2") auto
          moreover from body False g Inl have "r = Inl e" by simp
          ultimately show ?thesis using ne2 by (subst while_loop.simps) simp
        next
          case (Inr st')
          with rel obtain st2' where it2: "iteration g st2 = Inr st2'"
            and same': "same_items st' st2'"
            by (cases "iteration g st2") auto
          from body False g Inr have "loop g st' = Some r" by simp
          with IH same' have "while_loop g st2' = Some r" by blast
          then show ?thesis using ne2 it2 by (subst while_loop.simps) simp
        qed
      qed
    qed
  qed
  then show "same_items st1 st2 \<Longrightarrow> while_loop g st2 = Some r" by simp
qed

lemma same_items_sym: "same_items st1 st2 \<Longrightarrow> same_items st2 st1"
  by (simp add: same_items_def)

lemma while_loop_same_items:
  fixes st1 :: "'v::linorder state"
  assumes "same_items st1 st2"
  shows "while_loop g st1 = while_loop g st2"
proof (cases "while_loop g st1")
  case None
  show ?thesis
  proof (cases "while_loop g st2")
    case n2: None
    with None show ?thesis by simp
  next
    case (Some r)
    then have "while_loop g st1 = Some r"
      using same_items_sym [OF assms] by (rule while_loop_same_items_Some)
    with None show ?thesis by simp
  qed
next
  case (Some r)
  then have "while_loop g st2 = Some r" using assms by (rule while_loop_same_items_Some)
  with Some show ?thesis by simp
qed

subsection \<open>The example graph and the failing calls\<close>

lemma dijkstra_grafo_exemplo:
  "dijkstra grafo_exemplo ''A'' =
     Some (Inr ([(''A'', Fin 0), (''B'', Fin 3), (''C'', Fin 2), (''D'', Fin 1),
                 (''E'', Fin 4), (''F'', Fin 3), (''G'', Fin 5), (''H'', Fin 2),
                 (''I'', Fin 3)],
                [(''A'', [''A'']), (''B'', [''A'', ''D'', ''B'']),
                 (''C'', [''A'', ''D'', ''C'']), (''D'', [''A'', ''D'']),
                 (''E'', [''A'', ''D'', ''F'', ''E'']),
                 (''F'', [''A'', ''D'', ''F'']), (''G'', [''A'', ''H'', ''G'']),
                 (''H'', [''A'', ''H'']), (''I'', [''A'', ''D'', ''C'', ''I''])]))"
  by code_simp

lemma grafo_exemplo_wf: "wf_graph grafo_exemplo"
  by (simp add: wf_graph_def is_dict_def grafo_exemplo_def)

lemma grafo_exemplo_nonneg: "nonneg grafo_exemplo"
  by (simp add: nonneg_def grafo_exemplo_def)

lemma grafo_exemplo_integer: "integer_weights grafo_exemplo"
  by (simp add: integer_weights_def grafo_exemplo_def)

lemma grafo_exemplo_closed: "closed grafo_exemplo"
  by (simp add: closed_def vertices_def grafo_exemplo_def)

lemma grafo_exemplo_source: "''A'' \<in> vertices grafo_exemplo"
  by (simp add: vertices_def grafo_exemplo_def)

lemma dijkstra_isolated:
  "dijkstra [(''A'', [(''B'', Fin 2)]), (''B'', []), (''Z'', [])] ''A'' =
     Some (Inr ([(''A'', Fin 0), (''B'', Fin 2), (''Z'', Infinity)],
                [(''A'', [''A'']), (''B'', [''A'', ''B'']), (''Z'', [])]))"
  by code_simp

lemma dijkstra_detour:
  "dijkstra [(''A'', [(''B'', Fin 5), (''C'', Fin 1)]), (''B'', []), (''C'', [(''B'', Fin 1)])] ''A'' =
     Some (Inr ([(''A'', Fin 0), (''B'', Fin 2), (''C'', Fin 1)],
                [(''A'', [''A'']), (''B'', [''A'', ''C'', ''B'']), (''C'', [''A'', ''C''])]))"
  by code_simp

lemma dijkstra_direct:
  "dijkstra [(''A'', [(''B'', Fin 5), (''C'', Fin 1)]), (''B'', []), (''C'', [])] ''A'' =
     Some (Inr ([(''A'', Fin 0), (''B'', Fin 5), (''C'', Fin 1)],
                [(''A'', [''A'']), (''B'', [''A'', ''B'']), (''C'', [''A'', ''C''])]))"
  by code_simp

lemma remove_edge_detour:
  "remove_edge [(''A'', [(''B'', Fin 5), (''C'', Fin 1)]), (''B'', []), (''C'', [(''B'', Fin 1)])]
     ''C'' ''B'' =
     [(''A'', [(''B'', Fin 5), (''C'', Fin 1)]), (''B'', []), (''C'', [])]"
  by code_simp

lemma add_edge_direct:
  "add_edge [(''A'', [(''B'', Fin 5), (''C'', Fin 1)]), (''B'', []), (''C'', [])] ''C'' ''B'' (Fin 1) =
     [(''A'', [(''B'', Fin 5), (''C'', Fin 1)]), (''B'', []), (''C'', [(''B'', Fin 1)])]"
  by code_simp

lemma dijkstra_dangling_unreached:
  "dijkstra [(''A'', [(''B'', Fin 1)]), (''B'', []), (''C'', [(''X'', Fin 1)])] ''A'' =
     Some (Inr ([(''A'', Fin 0), (''B'', Fin 1), (''C'', Infinity)],
                [(''A'', [''A'']), (''B'', [''A'', ''B'']), (''C'', [])]))"
  by code_simp

lemma dijkstra_dangling_reached:
  "dijkstra [(''A'', [(''B'', Fin 1)]), (''B'', [(''X'', Fin 1)])] ''A'' = Some (Inl KeyError)"
  by code_simp

lemma dijkstra_infinite_edge:
  "dijkstra [(''A'', [(''B'', Infinity)]), (''B'', [])] ''A'' =
     Some (Inr ([(''A'', Fin 0), (''B'', Infinity)], [(''A'', [''A'']), (''B'', [])]))"
  by code_simp

text \<open>
  C2, as the spec states it, fails: on \<^verbatim>\<open>grafo_exemplo\<close> from \<^verbatim>\<open>'A'\<close> the distance table is
  not A:0, B:3, C:2, D:1, E:5, F:3, G:4, H:2, I:3.
\<close>

theorem exemplo_distances_counterexample:
  "map_option (map_sum id fst) (dijkstra grafo_exemplo ''A'') \<noteq>
     Some (Inr [(''A'', Fin 0), (''B'', Fin 3), (''C'', Fin 2), (''D'', Fin 1),
                (''E'', Fin 5), (''F'', Fin 3), (''G'', Fin 4), (''H'', Fin 2),
                (''I'', Fin 3)])"
  by (simp add: dijkstra_grafo_exemplo)

text \<open>
  C2, amended: on \<^verbatim>\<open>grafo_exemplo\<close> from \<^verbatim>\<open>'A'\<close>, \<^verbatim>\<open>dijkstra\<close> returns, and its distance
  table is exactly A:0, B:3, C:2, D:1, E:4, F:3, G:5, H:2, I:3 (E by A, D, F, E and G by
  A, H, G).
\<close>

theorem exemplo_distances:
  "map_option (map_sum id fst) (dijkstra grafo_exemplo ''A'') =
     Some (Inr [(''A'', Fin 0), (''B'', Fin 3), (''C'', Fin 2), (''D'', Fin 1),
                (''E'', Fin 4), (''F'', Fin 3), (''G'', Fin 5), (''H'', Fin 2),
                (''I'', Fin 3)])"
  by (simp add: dijkstra_grafo_exemplo)

text \<open>
  C8, as the spec states it, fails: a neighbour that is not a key of the graph, and a
  source that is not a key of the graph, each end the call with \<^verbatim>\<open>KeyError\<close>; and on a
  graph whose source and neighbours are all keys, the sum of a large integer distance and
  a weight \<^verbatim>\<open>float('infinity')\<close> ends it with \<^verbatim>\<open>OverflowError\<close>.
\<close>

theorem no_error_counterexample:
  "dijkstra [(''A'', [(''B'', Fin 1)])] ''A'' = Some (Inl KeyError) \<and>
   dijkstra [(''A'', [])] ''Z'' = Some (Inl KeyError) \<and>
   dijkstra [(''A'', [(''B'', Fin (2 ^ 1024))]), (''B'', [(''C'', Infinity)]), (''C'', [])] ''A'' =
     Some (Inl OverflowError)"
  by code_simp

text \<open>
  C8, amended, for graphs whose weights are integers: \<^verbatim>\<open>dijkstra\<close> raises \<^verbatim>\<open>KeyError\<close>
  when the source is not a key of the graph. When the source is a key and the weights
  are not negative, it returns the two tables if every neighbour of every vertex that a
  path from the source reaches is a key of the graph, and raises \<^verbatim>\<open>KeyError\<close> if not;
  so a neighbour that is not a key is no error when no path reaches the vertex that
  names it. When the source and all the neighbours are keys, it raises no error,
  whatever the integer weights.
\<close>

theorem dijkstra_no_error:
  fixes g :: "'v::linorder graph"
  shows "(s \<notin> vertices g \<longrightarrow> dijkstra g s = Some (Inl KeyError)) \<and>
         (s \<in> vertices g \<and> wf_graph g \<and> nonneg g \<and> integer_weights g \<longrightarrow>
            (reach_closed g s \<longrightarrow> (\<exists>D P. dijkstra g s = Some (Inr (D, P)))) \<and>
            (\<not> reach_closed g s \<longrightarrow> dijkstra g s = Some (Inl KeyError))) \<and>
         (s \<in> vertices g \<and> closed g \<and> integer_weights g \<longrightarrow>
            (\<forall>e. dijkstra g s \<noteq> Some (Inl e)))"
proof (intro conjI allI impI)
  assume "s \<notin> vertices g"
  then have "map_of g s = None"
    using map_of_vertices [of g s] by (cases "map_of g s") auto
  then have "iteration g (initial g s) = Inl KeyError"
    by (simp add: first_iteration)
  then show "dijkstra g s = Some (Inl KeyError)" by (rule dijkstra_first_error)
next
  assume a: "s \<in> vertices g \<and> wf_graph g \<and> nonneg g \<and> integer_weights g"
    and rc: "reach_closed g s"
  from a rc show "\<exists>D P. dijkstra g s = Some (Inr (D, P))"
    by (simp add: dijkstra_returns_reach)
next
  assume a: "s \<in> vertices g \<and> wf_graph g \<and> nonneg g \<and> integer_weights g"
    and nrc: "\<not> reach_closed g s"
  from a obtain r where r: "dijkstra g s = Some r" using dijkstra_halts [of g s] by blast
  show "dijkstra g s = Some (Inl KeyError)"
  proof (cases r)
    case (Inl e)
    with r a have "e = KeyError" using dijkstra_error_key [of g s e] by simp
    with r Inl show ?thesis by simp
  next
    case (Inr t)
    obtain D P where t: "t = (D, P)" by (cases t)
    with r Inr have run: "dijkstra g s = Some (Inr (D, P))" by simp
    from a have wf: "wf_graph g" and nn: "nonneg g" by simp_all
    from dijkstra_final [OF wf nn run] obtain st where
      "invariant g s st s []" "fila_prioridade st = []" by blast
    with a have "reach_closed g s" using final_reach_closed [of g s st s] by simp
    with nrc show ?thesis by simp
  qed
next
  fix e
  assume a: "s \<in> vertices g \<and> closed g \<and> integer_weights g"
  show "dijkstra g s \<noteq> Some (Inl e)"
  proof
    assume "dijkstra g s = Some (Inl e)"
    then have "while_loop g (initial g s) = Some (Inl e)" by (simp add: dijkstra_def)
    with a initial_keys [of g s] have "\<exists>D P. Inl e = Inr (D, P)"
      using while_loop_no_error [of g s "initial g s" "Inl e"] by blast
    then show False by simp
  qed
qed

theorem dijkstra_no_error_witness:
  "''Z'' \<notin> vertices grafo_exemplo \<and> dijkstra grafo_exemplo ''Z'' = Some (Inl KeyError) \<and>
   ''A'' \<in> vertices [(''A'', [(''B'', Fin 1)]), (''B'', []), (''C'', [(''X'', Fin 1)])] \<and>
   wf_graph [(''A'', [(''B'', Fin 1)]), (''B'', []), (''C'', [(''X'', Fin 1)])] \<and>
   nonneg [(''A'', [(''B'', Fin 1)]), (''B'', []), (''C'', [(''X'', Fin 1)])] \<and>
   integer_weights [(''A'', [(''B'', Fin 1)]), (''B'', []), (''C'', [(''X'', Fin 1)])] \<and>
   reach_closed [(''A'', [(''B'', Fin 1)]), (''B'', []), (''C'', [(''X'', Fin 1)])] ''A'' \<and>
   (\<exists>D P. dijkstra [(''A'', [(''B'', Fin 1)]), (''B'', []), (''C'', [(''X'', Fin 1)])] ''A'' =
      Some (Inr (D, P))) \<and>
   ''A'' \<in> vertices [(''A'', [(''B'', Fin 1)]), (''B'', [(''X'', Fin 1)])] \<and>
   wf_graph [(''A'', [(''B'', Fin 1)]), (''B'', [(''X'', Fin 1)])] \<and>
   nonneg [(''A'', [(''B'', Fin 1)]), (''B'', [(''X'', Fin 1)])] \<and>
   integer_weights [(''A'', [(''B'', Fin 1)]), (''B'', [(''X'', Fin 1)])] \<and>
   \<not> reach_closed [(''A'', [(''B'', Fin 1)]), (''B'', [(''X'', Fin 1)])] ''A'' \<and>
   dijkstra [(''A'', [(''B'', Fin 1)]), (''B'', [(''X'', Fin 1)])] ''A'' = Some (Inl KeyError) \<and>
   ''A'' \<in> vertices grafo_exemplo \<and> closed grafo_exemplo \<and> integer_weights grafo_exemplo \<and>
   (\<forall>e. dijkstra grafo_exemplo ''A'' \<noteq> Some (Inl e))"
proof -
  let ?g = "[(''A'', [(''B'', Fin 1)]), (''B'', []), (''C'', [(''X'', Fin 1)])] :: string graph"
  let ?h = "[(''A'', [(''B'', Fin 1)]), (''B'', [(''X'', Fin 1)])] :: string graph"
  have Z: "''Z'' \<notin> vertices grafo_exemplo"
    by (simp add: vertices_def grafo_exemplo_def)
  have g: "''A'' \<in> vertices ?g" "wf_graph ?g" "nonneg ?g" "integer_weights ?g"
    by (simp_all add: wf_graph_def is_dict_def nonneg_def integer_weights_def vertices_def)
  have h: "''A'' \<in> vertices ?h" "wf_graph ?h" "nonneg ?h" "integer_weights ?h"
    by (simp_all add: wf_graph_def is_dict_def nonneg_def integer_weights_def vertices_def)
  from dijkstra_no_error [of "''Z''" grafo_exemplo] Z
  have 1: "dijkstra grafo_exemplo ''Z'' = Some (Inl KeyError)" by blast
  from dijkstra_no_error [of "''A''" ?g] g dijkstra_dangling_unreached
  have 2: "reach_closed ?g ''A''" by auto
  from dijkstra_no_error [of "''A''" ?g] g 2
  have 3: "\<exists>D P. dijkstra ?g ''A'' = Some (Inr (D, P))" by blast
  from dijkstra_no_error [of "''A''" ?h] h dijkstra_dangling_reached
  have 4: "\<not> reach_closed ?h ''A''" by auto
  from dijkstra_no_error [of "''A''" ?h] h 4
  have 5: "dijkstra ?h ''A'' = Some (Inl KeyError)" by blast
  from dijkstra_no_error [of "''A''" grafo_exemplo]
    grafo_exemplo_source grafo_exemplo_closed grafo_exemplo_integer
  have 6: "\<forall>e. dijkstra grafo_exemplo ''A'' \<noteq> Some (Inl e)" by blast
  from Z 1 g 2 3 h 4 5 6 grafo_exemplo_source grafo_exemplo_closed grafo_exemplo_integer
  show ?thesis by (intro conjI) assumption+
qed

subsection \<open>Correctness of the tables\<close>

text \<open>
  C1: for a graph with non-negative weights whose keys contain the source, the distance
  table that \<^verbatim>\<open>dijkstra\<close> returns maps every key of the graph to the least weight of a
  path from the source to it, or to infinity when there is no such path; with integer
  weights an infinite entry means that there is no path. The call returns whenever the
  weights are integers and every neighbour is a key of the graph.
\<close>

theorem dijkstra_least_weight:
  fixes g :: "'v::linorder graph"
  assumes "wf_graph g" and "nonneg g" and "s \<in> vertices g"
  shows "(closed g \<and> integer_weights g \<longrightarrow> (\<exists>D P. dijkstra g s = Some (Inr (D, P)))) \<and>
         (\<forall>D P. dijkstra g s = Some (Inr (D, P)) \<longrightarrow>
            (\<forall>v \<in> vertices g. \<exists>x. map_of D v = Some x \<and> least_weight g s v x \<and>
               (integer_weights g \<and> x = Infinity \<longrightarrow> (\<forall>p. \<not> route g s v p))))"
proof (intro conjI allI impI ballI)
  assume "closed g \<and> integer_weights g"
  with assms show "\<exists>D P. dijkstra g s = Some (Inr (D, P))"
    by (simp add: dijkstra_returns)
next
  fix D P v
  assume run: "dijkstra g s = Some (Inr (D, P))" and v: "v \<in> vertices g"
  from dijkstra_final [OF assms(1,2) run] obtain st where
    st: "invariant g s st s []" "fila_prioridade st = []" "distancias st = D" "caminhos st = P"
    by blast
  from st(1) v have "v \<in> dom (map_of (distancias st))"
    by (simp add: invariant_def inv_dom_def)
  then obtain x where x: "map_of (distancias st) v = Some x" by blast
  have l: "least_weight g s v x" using st(1,2) x by (rule final_least_weight)
  have "\<forall>p. \<not> route g s v p" if "integer_weights g \<and> x = Infinity"
    using that l least_weight_Infinity [of g s v] by blast
  with x l st(3)
  show "\<exists>x. map_of D v = Some x \<and> least_weight g s v x \<and>
          (integer_weights g \<and> x = Infinity \<longrightarrow> (\<forall>p. \<not> route g s v p))"
    by blast
qed

theorem dijkstra_least_weight_witness:
  "wf_graph grafo_exemplo \<and> nonneg grafo_exemplo \<and> ''A'' \<in> vertices grafo_exemplo \<and>
   closed grafo_exemplo \<and> integer_weights grafo_exemplo \<and> ''E'' \<in> vertices grafo_exemplo \<and>
   least_weight grafo_exemplo ''A'' ''E'' (Fin 4)"
proof -
  have E: "''E'' \<in> vertices grafo_exemplo"
    by (simp add: vertices_def grafo_exemplo_def)
  from dijkstra_least_weight [OF grafo_exemplo_wf grafo_exemplo_nonneg grafo_exemplo_source]
    dijkstra_grafo_exemplo E
  have "\<exists>x. map_of [(''A'', Fin 0), (''B'', Fin 3), (''C'', Fin 2), (''D'', Fin 1),
                 (''E'', Fin 4), (''F'', Fin 3), (''G'', Fin 5), (''H'', Fin 2),
                 (''I'', Fin 3)] ''E'' = Some x \<and> least_weight grafo_exemplo ''A'' ''E'' x"
    by blast
  then have "least_weight grafo_exemplo ''A'' ''E'' (Fin 4)" by simp
  with grafo_exemplo_wf grafo_exemplo_nonneg grafo_exemplo_source grafo_exemplo_closed
    grafo_exemplo_integer E
  show ?thesis by simp
qed

text \<open>
  C3: for a graph with non-negative weights whose keys contain the source, the returned
  distance table maps the source to 0 and the returned path table maps it to the path
  of the source alone.
\<close>

theorem dijkstra_source:
  fixes g :: "'v::linorder graph"
  assumes "wf_graph g" and "nonneg g" and "s \<in> vertices g"
  shows "(closed g \<and> integer_weights g \<longrightarrow> (\<exists>D P. dijkstra g s = Some (Inr (D, P)))) \<and>
         (\<forall>D P. dijkstra g s = Some (Inr (D, P)) \<longrightarrow>
            map_of D s = Some (Fin 0) \<and> map_of P s = Some [s])"
proof (intro conjI allI impI)
  assume "closed g \<and> integer_weights g"
  with assms show "\<exists>D P. dijkstra g s = Some (Inr (D, P))"
    by (simp add: dijkstra_returns)
next
  fix D P
  assume run: "dijkstra g s = Some (Inr (D, P))"
  from dijkstra_final [OF assms(1,2) run] obtain st where
    st: "invariant g s st s []" "distancias st = D" "caminhos st = P"
    by blast
  then show "map_of D s = Some (Fin 0)" "map_of P s = Some [s]"
    by (auto simp: invariant_def inv_src_def)
qed

theorem dijkstra_source_witness:
  "wf_graph grafo_exemplo \<and> nonneg grafo_exemplo \<and> ''A'' \<in> vertices grafo_exemplo \<and>
   closed grafo_exemplo \<and> integer_weights grafo_exemplo \<and>
   (\<exists>D P. dijkstra grafo_exemplo ''A'' = Some (Inr (D, P)) \<and>
      map_of D ''A'' = Some (Fin 0) \<and> map_of P ''A'' = Some [''A''])"
proof -
  from dijkstra_source [OF grafo_exemplo_wf grafo_exemplo_nonneg grafo_exemplo_source]
    grafo_exemplo_closed grafo_exemplo_integer
  have "\<exists>D P. dijkstra grafo_exemplo ''A'' = Some (Inr (D, P)) \<and>
      map_of D ''A'' = Some (Fin 0) \<and> map_of P ''A'' = Some [''A'']"
    by blast
  with grafo_exemplo_wf grafo_exemplo_nonneg grafo_exemplo_source grafo_exemplo_closed
    grafo_exemplo_integer
  show ?thesis by simp
qed

text \<open>
  C4: for a graph with non-negative weights whose keys contain the source, and every
  vertex with a finite returned distance, the weights of the consecutive pairs of the
  returned path of the vertex sum to exactly that distance.
\<close>

theorem dijkstra_path_weight:
  fixes g :: "'v::linorder graph"
  assumes "wf_graph g" and "nonneg g" and "s \<in> vertices g"
  shows "(closed g \<and> integer_weights g \<longrightarrow> (\<exists>D P. dijkstra g s = Some (Inr (D, P)))) \<and>
         (\<forall>D P. dijkstra g s = Some (Inr (D, P)) \<longrightarrow>
            (\<forall>v d. map_of D v = Some (Fin d) \<longrightarrow>
               (\<exists>p. map_of P v = Some p \<and> path_weight g p = Some (Fin d))))"
proof (intro conjI allI impI)
  assume "closed g \<and> integer_weights g"
  with assms show "\<exists>D P. dijkstra g s = Some (Inr (D, P))"
    by (simp add: dijkstra_returns)
next
  fix D P v d
  assume run: "dijkstra g s = Some (Inr (D, P))" and d: "map_of D v = Some (Fin d)"
  from dijkstra_final [OF assms(1,2) run] obtain st where
    st: "invariant g s st s []" "distancias st = D" "caminhos st = P"
    by blast
  from st(1) have "inv_path g s st" by (simp add: invariant_def)
  with d st(2,3) show "\<exists>p. map_of P v = Some p \<and> path_weight g p = Some (Fin d)"
    unfolding inv_path_def by blast
qed

theorem dijkstra_path_weight_witness:
  "wf_graph grafo_exemplo \<and> nonneg grafo_exemplo \<and> ''A'' \<in> vertices grafo_exemplo \<and>
   closed grafo_exemplo \<and> integer_weights grafo_exemplo \<and>
   (\<exists>D P p. dijkstra grafo_exemplo ''A'' = Some (Inr (D, P)) \<and>
      map_of D ''G'' = Some (Fin 5) \<and> map_of P ''G'' = Some p \<and>
      path_weight grafo_exemplo p = Some (Fin 5))"
proof -
  let ?D = "[(''A'', Fin 0), (''B'', Fin 3), (''C'', Fin 2), (''D'', Fin 1),
                 (''E'', Fin 4), (''F'', Fin 3), (''G'', Fin 5), (''H'', Fin 2),
                 (''I'', Fin 3)]"
  have G: "map_of ?D ''G'' = Some (Fin 5)" by simp
  from dijkstra_path_weight [OF grafo_exemplo_wf grafo_exemplo_nonneg grafo_exemplo_source]
    dijkstra_grafo_exemplo G
  have "\<exists>D P p. dijkstra grafo_exemplo ''A'' = Some (Inr (D, P)) \<and>
      map_of D ''G'' = Some (Fin 5) \<and> map_of P ''G'' = Some p \<and>
      path_weight grafo_exemplo p = Some (Fin 5)"
    by blast
  with grafo_exemplo_wf grafo_exemplo_nonneg grafo_exemplo_source grafo_exemplo_closed
    grafo_exemplo_integer
  show ?thesis by simp
qed

text \<open>
  C5, as the spec states it, fails: the weights of the graph below are not negative and
  its keys contain the source, the returned distance of \<^verbatim>\<open>'B'\<close> is infinite and its
  returned path is empty, and yet A, B is a path from the source to it. The weight of
  its one edge is \<^verbatim>\<open>float('infinity')\<close>, and line 36 finds \<^verbatim>\<open>inf < inf\<close> false.
\<close>

theorem unreachable_counterexample:
  "wf_graph [(''A'', [(''B'', Infinity)]), (''B'', [])] \<and>
   nonneg [(''A'', [(''B'', Infinity)]), (''B'', [])] \<and>
   ''A'' \<in> vertices [(''A'', [(''B'', Infinity)]), (''B'', [])] \<and>
   dijkstra [(''A'', [(''B'', Infinity)]), (''B'', [])] ''A'' =
     Some (Inr ([(''A'', Fin 0), (''B'', Infinity)], [(''A'', [''A'']), (''B'', [])])) \<and>
   map_of [(''A'', Fin 0), (''B'', Infinity)] ''B'' = Some Infinity \<and>
   route [(''A'', [(''B'', Infinity)]), (''B'', [])] ''A'' ''B'' [''A'', ''B'']"
  by (simp add: dijkstra_infinite_edge wf_graph_def is_dict_def nonneg_def vertices_def
      route_def peso_def)

text \<open>
  C5, amended: for a graph with non-negative integer weights whose keys contain the
  source, and every vertex whose returned distance is infinite, the returned path of the
  vertex is empty and the graph has no path from the source to the vertex.
\<close>

theorem dijkstra_unreachable:
  fixes g :: "'v::linorder graph"
  assumes "wf_graph g" and "nonneg g" and "integer_weights g" and "s \<in> vertices g"
  shows "(closed g \<longrightarrow> (\<exists>D P. dijkstra g s = Some (Inr (D, P)))) \<and>
         (\<forall>D P. dijkstra g s = Some (Inr (D, P)) \<longrightarrow>
            (\<forall>v. map_of D v = Some Infinity \<longrightarrow>
               map_of P v = Some [] \<and> (\<forall>p. \<not> route g s v p)))"
proof (intro conjI allI impI)
  assume "closed g"
  with assms show "\<exists>D P. dijkstra g s = Some (Inr (D, P))"
    by (simp add: dijkstra_returns)
next
  fix D P v p
  assume run: "dijkstra g s = Some (Inr (D, P))" and d: "map_of D v = Some Infinity"
  from dijkstra_final [OF assms(1,2) run] obtain st where
    st: "invariant g s st s []" "fila_prioridade st = []" "distancias st = D" "caminhos st = P"
    by blast
  from st(1) have "inv_inf st" by (simp add: invariant_def)
  with d st(3,4) show "map_of P v = Some []" by (simp add: inv_inf_def)
  from d st(3) have "least_weight g s v Infinity"
    using final_least_weight [OF st(1,2), of v Infinity] by simp
  with assms(3) show "\<not> route g s v p" by (rule least_weight_Infinity)
qed

theorem dijkstra_unreachable_witness:
  "wf_graph [(''A'', [(''B'', Fin 2)]), (''B'', []), (''Z'', [])] \<and>
   nonneg [(''A'', [(''B'', Fin 2)]), (''B'', []), (''Z'', [])] \<and>
   integer_weights [(''A'', [(''B'', Fin 2)]), (''B'', []), (''Z'', [])] \<and>
   ''A'' \<in> vertices [(''A'', [(''B'', Fin 2)]), (''B'', []), (''Z'', [])] \<and>
   (\<exists>D P. dijkstra [(''A'', [(''B'', Fin 2)]), (''B'', []), (''Z'', [])] ''A'' =
        Some (Inr (D, P)) \<and>
      map_of D ''Z'' = Some Infinity \<and> map_of P ''Z'' = Some [] \<and>
      (\<forall>p. \<not> route [(''A'', [(''B'', Fin 2)]), (''B'', []), (''Z'', [])] ''A'' ''Z'' p))"
proof -
  let ?g = "[(''A'', [(''B'', Fin 2)]), (''B'', []), (''Z'', [])] :: string graph"
  let ?D = "[(''A'', Fin 0), (''B'', Fin 2), (''Z'', Infinity)]"
  have h: "wf_graph ?g" "nonneg ?g" "integer_weights ?g" "''A'' \<in> vertices ?g"
    by (simp_all add: wf_graph_def is_dict_def nonneg_def integer_weights_def vertices_def)
  have Z: "map_of ?D ''Z'' = Some Infinity" by simp
  from dijkstra_unreachable [OF h] dijkstra_isolated Z
  have "\<exists>D P. dijkstra ?g ''A'' = Some (Inr (D, P)) \<and>
      map_of D ''Z'' = Some Infinity \<and> map_of P ''Z'' = Some [] \<and>
      (\<forall>p. \<not> route ?g ''A'' ''Z'' p)"
    by blast
  with h show ?thesis by simp
qed

text \<open>
  C10: for a graph with non-negative weights whose keys contain the source, and every
  vertex with a finite returned distance, the returned path of the vertex is not empty,
  starts at the source, ends at the vertex, and each of its consecutive pairs is an edge
  of the graph.
\<close>

theorem dijkstra_path_shape:
  fixes g :: "'v::linorder graph"
  assumes "wf_graph g" and "nonneg g" and "s \<in> vertices g"
  shows "(closed g \<and> integer_weights g \<longrightarrow> (\<exists>D P. dijkstra g s = Some (Inr (D, P)))) \<and>
         (\<forall>D P. dijkstra g s = Some (Inr (D, P)) \<longrightarrow>
            (\<forall>v d. map_of D v = Some (Fin d) \<longrightarrow>
               (\<exists>p. map_of P v = Some p \<and> p \<noteq> [] \<and> hd p = s \<and> last p = v \<and>
                    (\<forall>(a, b) \<in> set (arestas_caminho p). peso g a b \<noteq> None))))"
proof (intro conjI allI impI)
  assume "closed g \<and> integer_weights g"
  with assms show "\<exists>D P. dijkstra g s = Some (Inr (D, P))"
    by (simp add: dijkstra_returns)
next
  fix D P v d
  assume run: "dijkstra g s = Some (Inr (D, P))" and d: "map_of D v = Some (Fin d)"
  from dijkstra_final [OF assms(1,2) run] obtain st where
    st: "invariant g s st s []" "distancias st = D" "caminhos st = P"
    by blast
  from st(1) have "inv_path g s st" by (simp add: invariant_def)
  with d st(2,3) obtain p where "map_of P v = Some p" "route g s v p"
    unfolding inv_path_def by blast
  then show "\<exists>p. map_of P v = Some p \<and> p \<noteq> [] \<and> hd p = s \<and> last p = v \<and>
                    (\<forall>(a, b) \<in> set (arestas_caminho p). peso g a b \<noteq> None)"
    using path_weight_edges [of g p] by (auto simp: route_def)
qed

theorem dijkstra_path_shape_witness:
  "wf_graph grafo_exemplo \<and> nonneg grafo_exemplo \<and> ''A'' \<in> vertices grafo_exemplo \<and>
   closed grafo_exemplo \<and> integer_weights grafo_exemplo \<and>
   (\<exists>D P p. dijkstra grafo_exemplo ''A'' = Some (Inr (D, P)) \<and>
      map_of D ''I'' = Some (Fin 3) \<and> map_of P ''I'' = Some p \<and>
      p \<noteq> [] \<and> hd p = ''A'' \<and> last p = ''I'' \<and>
      (\<forall>(a, b) \<in> set (arestas_caminho p). peso grafo_exemplo a b \<noteq> None))"
proof -
  let ?D = "[(''A'', Fin 0), (''B'', Fin 3), (''C'', Fin 2), (''D'', Fin 1),
                 (''E'', Fin 4), (''F'', Fin 3), (''G'', Fin 5), (''H'', Fin 2),
                 (''I'', Fin 3)]"
  have I: "map_of ?D ''I'' = Some (Fin 3)" by simp
  from dijkstra_path_shape [OF grafo_exemplo_wf grafo_exemplo_nonneg grafo_exemplo_source]
    dijkstra_grafo_exemplo I
  have "\<exists>D P p. dijkstra grafo_exemplo ''A'' = Some (Inr (D, P)) \<and>
      map_of D ''I'' = Some (Fin 3) \<and> map_of P ''I'' = Some p \<and>
      p \<noteq> [] \<and> hd p = ''A'' \<and> last p = ''I'' \<and>
      (\<forall>(a, b) \<in> set (arestas_caminho p). peso grafo_exemplo a b \<noteq> None)"
    by blast
  with grafo_exemplo_wf grafo_exemplo_nonneg grafo_exemplo_source grafo_exemplo_closed
    grafo_exemplo_integer
  show ?thesis by simp
qed

text \<open>
  C9: for a graph with non-negative weights whose keys contain the source and all the
  neighbours, \<^verbatim>\<open>dijkstra\<close> terminates: the \<^verbatim>\<open>while\<close> loop ends, and with integer weights
  the call returns the two tables.
\<close>

theorem dijkstra_terminates:
  fixes g :: "'v::linorder graph"
  assumes "wf_graph g" and "nonneg g" and "closed g" and "s \<in> vertices g"
  shows "(\<exists>r. dijkstra g s = Some r) \<and>
         (integer_weights g \<longrightarrow> (\<exists>D P. dijkstra g s = Some (Inr (D, P))))"
  using assms dijkstra_halts [of g s] dijkstra_returns [of g s] by blast

theorem dijkstra_terminates_witness:
  "wf_graph grafo_exemplo \<and> nonneg grafo_exemplo \<and> closed grafo_exemplo \<and>
   ''A'' \<in> vertices grafo_exemplo \<and> integer_weights grafo_exemplo \<and>
   (\<exists>D P. dijkstra grafo_exemplo ''A'' = Some (Inr (D, P)))"
  using dijkstra_terminates [OF grafo_exemplo_wf grafo_exemplo_nonneg grafo_exemplo_closed
      grafo_exemplo_source]
    grafo_exemplo_wf grafo_exemplo_nonneg grafo_exemplo_closed grafo_exemplo_source
    grafo_exemplo_integer
  by simp

subsection \<open>Relations between calls\<close>

text \<open>
  C7: for a graph with non-negative weights whose keys contain the source, removing an
  edge never decreases the returned distance of a vertex, and adding an edge of
  non-negative weight that the graph does not have never increases it. Both calls
  return when the weights are integers and every neighbour is a key of the graph.
\<close>

theorem dijkstra_monotone:
  fixes g :: "'v::linorder graph"
  assumes "wf_graph g" and "nonneg g" and "s \<in> vertices g"
  shows "(closed g \<and> integer_weights g \<longrightarrow>
            (\<exists>D P. dijkstra g s = Some (Inr (D, P))) \<and>
            (\<exists>D' P'. dijkstra (remove_edge g a b) s = Some (Inr (D', P'))) \<and>
            (dist_le (Fin 0) w \<and> w \<noteq> Infinity \<and> b \<in> vertices g \<longrightarrow>
               (\<exists>D' P'. dijkstra (add_edge g a b w) s = Some (Inr (D', P'))))) \<and>
         (\<forall>D P D' P' v x x'.
            dijkstra g s = Some (Inr (D, P)) \<and>
            dijkstra (remove_edge g a b) s = Some (Inr (D', P')) \<and>
            map_of D v = Some x \<and> map_of D' v = Some x' \<longrightarrow> dist_le x x') \<and>
         (\<forall>D P D' P' v x x'.
            dist_le (Fin 0) w \<and> peso g a b = None \<and>
            dijkstra g s = Some (Inr (D, P)) \<and>
            dijkstra (add_edge g a b w) s = Some (Inr (D', P')) \<and>
            map_of D v = Some x \<and> map_of D' v = Some x' \<longrightarrow> dist_le x' x)"
proof (intro conjI allI impI)
  assume "closed g \<and> integer_weights g"
  with assms show "\<exists>D P. dijkstra g s = Some (Inr (D, P))"
    by (simp add: dijkstra_returns)
next
  assume "closed g \<and> integer_weights g"
  with assms show "\<exists>D' P'. dijkstra (remove_edge g a b) s = Some (Inr (D', P'))"
    by (simp add: dijkstra_returns wf_remove_edge nonneg_remove_edge closed_remove_edge
        integer_weights_remove_edge vertices_remove_edge)
next
  assume "closed g \<and> integer_weights g" "dist_le (Fin 0) w \<and> w \<noteq> Infinity \<and> b \<in> vertices g"
  with assms show "\<exists>D' P'. dijkstra (add_edge g a b w) s = Some (Inr (D', P'))"
    by (simp add: dijkstra_returns wf_add_edge nonneg_add_edge closed_add_edge
        integer_weights_add_edge vertices_add_edge)
next
  fix D P D' P' v x x'
  assume a: "dijkstra g s = Some (Inr (D, P)) \<and>
            dijkstra (remove_edge g a b) s = Some (Inr (D', P')) \<and>
            map_of D v = Some x \<and> map_of D' v = Some x'"
  have 1: "least_weight g s v x"
    using assms(1,2) a by (blast intro: dijkstra_entry_least)
  have 2: "least_weight (remove_edge g a b) s v x'"
    using wf_remove_edge [OF assms(1)] nonneg_remove_edge [OF assms(2)] a
    by (blast intro: dijkstra_entry_least)
  have "peso g x1 y1 = Some w1" if "peso (remove_edge g a b) x1 y1 = Some w1" for x1 y1 w1
    using that by (simp add: peso_remove_edge split: if_splits)
  then show "dist_le x x'" using 1 2 by (rule least_weight_sub)
next
  fix D P D' P' v x x'
  assume a: "dist_le (Fin 0) w \<and> peso g a b = None \<and>
            dijkstra g s = Some (Inr (D, P)) \<and>
            dijkstra (add_edge g a b w) s = Some (Inr (D', P')) \<and>
            map_of D v = Some x \<and> map_of D' v = Some x'"
  have 1: "least_weight g s v x"
    using assms(1,2) a by (blast intro: dijkstra_entry_least)
  have 2: "least_weight (add_edge g a b w) s v x'"
    using wf_add_edge [OF assms(1)] nonneg_add_edge [OF assms(2)] a
    by (blast intro: dijkstra_entry_least)
  have "peso (add_edge g a b w) x1 y1 = Some w1" if "peso g x1 y1 = Some w1" for x1 y1 w1
    using that a by (auto simp: peso_add_edge)
  then show "dist_le x' x" using 2 1 by (rule least_weight_sub)
qed

theorem dijkstra_monotone_witness:
  "wf_graph [(''A'', [(''B'', Fin 5), (''C'', Fin 1)]), (''B'', []), (''C'', [(''B'', Fin 1)])] \<and>
   nonneg [(''A'', [(''B'', Fin 5), (''C'', Fin 1)]), (''B'', []), (''C'', [(''B'', Fin 1)])] \<and>
   ''A'' \<in> vertices [(''A'', [(''B'', Fin 5), (''C'', Fin 1)]), (''B'', []), (''C'', [(''B'', Fin 1)])] \<and>
   wf_graph [(''A'', [(''B'', Fin 5), (''C'', Fin 1)]), (''B'', []), (''C'', [])] \<and>
   nonneg [(''A'', [(''B'', Fin 5), (''C'', Fin 1)]), (''B'', []), (''C'', [])] \<and>
   ''A'' \<in> vertices [(''A'', [(''B'', Fin 5), (''C'', Fin 1)]), (''B'', []), (''C'', [])] \<and>
   peso [(''A'', [(''B'', Fin 5), (''C'', Fin 1)]), (''B'', []), (''C'', [])] ''C'' ''B'' = None \<and>
   (\<exists>D P D' P'.
      dijkstra [(''A'', [(''B'', Fin 5), (''C'', Fin 1)]), (''B'', []), (''C'', [(''B'', Fin 1)])] ''A'' =
        Some (Inr (D, P)) \<and>
      dijkstra (remove_edge [(''A'', [(''B'', Fin 5), (''C'', Fin 1)]), (''B'', []), (''C'', [(''B'', Fin 1)])]
                  ''C'' ''B'') ''A'' = Some (Inr (D', P')) \<and>
      map_of D ''B'' = Some (Fin 2) \<and> map_of D' ''B'' = Some (Fin 5)) \<and>
   (\<exists>D P D' P'.
      dijkstra [(''A'', [(''B'', Fin 5), (''C'', Fin 1)]), (''B'', []), (''C'', [])] ''A'' =
        Some (Inr (D, P)) \<and>
      dijkstra (add_edge [(''A'', [(''B'', Fin 5), (''C'', Fin 1)]), (''B'', []), (''C'', [])]
                  ''C'' ''B'' (Fin 1)) ''A'' = Some (Inr (D', P')) \<and>
      map_of D ''B'' = Some (Fin 5) \<and> map_of D' ''B'' = Some (Fin 2)) \<and>
   dist_le (Fin 2) (Fin 5)"
proof -
  let ?g = "[(''A'', [(''B'', Fin 5), (''C'', Fin 1)]), (''B'', []), (''C'', [(''B'', Fin 1)])] :: string graph"
  let ?h = "[(''A'', [(''B'', Fin 5), (''C'', Fin 1)]), (''B'', []), (''C'', [])] :: string graph"
  let ?Dg = "[(''A'', Fin 0), (''B'', Fin 2), (''C'', Fin 1)]"
  let ?Dh = "[(''A'', Fin 0), (''B'', Fin 5), (''C'', Fin 1)]"
  have g: "wf_graph ?g" "nonneg ?g" "''A'' \<in> vertices ?g"
    by (simp_all add: wf_graph_def is_dict_def nonneg_def vertices_def)
  have h: "wf_graph ?h" "nonneg ?h" "''A'' \<in> vertices ?h"
    by (simp_all add: wf_graph_def is_dict_def nonneg_def vertices_def)
  have p: "peso ?h ''C'' ''B'' = None" by (simp add: peso_def)
  have B: "map_of ?Dg ''B'' = Some (Fin 2)" "map_of ?Dh ''B'' = Some (Fin 5)" by simp_all
  have rg: "dijkstra (remove_edge ?g ''C'' ''B'') ''A'' =
      Some (Inr (?Dh, [(''A'', [''A'']), (''B'', [''A'', ''B'']), (''C'', [''A'', ''C''])]))"
    by (simp only: remove_edge_detour dijkstra_direct)
  have ah: "dijkstra (add_edge ?h ''C'' ''B'' (Fin 1)) ''A'' =
      Some (Inr (?Dg, [(''A'', [''A'']), (''B'', [''A'', ''C'', ''B'']), (''C'', [''A'', ''C''])]))"
    by (simp only: add_edge_direct dijkstra_detour)
  from dijkstra_monotone [OF g, of "''C''" "''B''" "Fin 1"] dijkstra_detour rg B
  have 1: "dist_le (Fin 2) (Fin 5)" by blast
  have w: "dist_le (Fin 0) (Fin 1)" by simp
  from dijkstra_monotone [OF h, of "''C''" "''B''" "Fin 1"] dijkstra_direct ah B p w
  have 2: "dist_le (Fin 2) (Fin 5)" by blast
  from 1 2 g h p B dijkstra_detour dijkstra_direct rg ah
  show ?thesis by (intro conjI exI) assumption+
qed

text \<open>
  C6: two calls of \<^verbatim>\<open>dijkstra\<close> with the same graph and the same source have the same
  outcome: the same two tables, the same error, or no return in either. The outcome is
  a function of the two arguments, and the loop depends on the items the heap holds,
  not on how the heap arranges them.
\<close>
theorem dijkstra_deterministic:
  fixes g :: "'v::linorder graph"
  shows "(dijkstra g s = r1 \<and> dijkstra g s = r2 \<longrightarrow> r1 = r2) \<and>
         (\<forall>st1 st2. same_items st1 st2 \<longrightarrow> while_loop g st1 = while_loop g st2)"
  using while_loop_same_items by auto

theorem dijkstra_deterministic_witness:
  "(dijkstra grafo_exemplo ''A'' =
      Some (Inr ([(''A'', Fin 0), (''B'', Fin 3), (''C'', Fin 2), (''D'', Fin 1),
                 (''E'', Fin 4), (''F'', Fin 3), (''G'', Fin 5), (''H'', Fin 2),
                 (''I'', Fin 3)],
                [(''A'', [''A'']), (''B'', [''A'', ''D'', ''B'']),
                 (''C'', [''A'', ''D'', ''C'']), (''D'', [''A'', ''D'']),
                 (''E'', [''A'', ''D'', ''F'', ''E'']),
                 (''F'', [''A'', ''D'', ''F'']), (''G'', [''A'', ''H'', ''G'']),
                 (''H'', [''A'', ''H'']), (''I'', [''A'', ''D'', ''C'', ''I''])])) \<and>
    dijkstra grafo_exemplo ''A'' = dijkstra grafo_exemplo ''A'') \<and>
   same_items
     \<lparr>distancias = [(''A'', Fin 0), (''B'', Fin 6), (''D'', Fin 1)],
      caminhos = [(''A'', [''A'']), (''B'', [''A'', ''B'']), (''D'', [''A'', ''D''])],
      fila_prioridade = [(6, ''B''), (1, ''D'')]\<rparr>
     \<lparr>distancias = [(''A'', Fin 0), (''B'', Fin 6), (''D'', Fin 1)],
      caminhos = [(''A'', [''A'']), (''B'', [''A'', ''B'']), (''D'', [''A'', ''D''])],
      fila_prioridade = [(1, ''D''), (6, ''B'')]\<rparr> \<and>
   while_loop [(''A'', [(''B'', Fin 6), (''D'', Fin 1)]), (''B'', []), (''D'', [(''B'', Fin 2)])]
     \<lparr>distancias = [(''A'', Fin 0), (''B'', Fin 6), (''D'', Fin 1)],
      caminhos = [(''A'', [''A'']), (''B'', [''A'', ''B'']), (''D'', [''A'', ''D''])],
      fila_prioridade = [(6, ''B''), (1, ''D'')]\<rparr> =
   while_loop [(''A'', [(''B'', Fin 6), (''D'', Fin 1)]), (''B'', []), (''D'', [(''B'', Fin 2)])]
     \<lparr>distancias = [(''A'', Fin 0), (''B'', Fin 6), (''D'', Fin 1)],
      caminhos = [(''A'', [''A'']), (''B'', [''A'', ''B'']), (''D'', [''A'', ''D''])],
      fila_prioridade = [(1, ''D''), (6, ''B'')]\<rparr>"
proof -
  let ?g = "[(''A'', [(''B'', Fin 6), (''D'', Fin 1)]), (''B'', []), (''D'', [(''B'', Fin 2)])] :: string graph"
  let ?s1 = "\<lparr>distancias = [(''A'', Fin 0), (''B'', Fin 6), (''D'', Fin 1)],
      caminhos = [(''A'', [''A'']), (''B'', [''A'', ''B'']), (''D'', [''A'', ''D''])],
      fila_prioridade = [(6, ''B''), (1, ''D'')]\<rparr> :: string state"
  let ?s2 = "\<lparr>distancias = [(''A'', Fin 0), (''B'', Fin 6), (''D'', Fin 1)],
      caminhos = [(''A'', [''A'']), (''B'', [''A'', ''B'']), (''D'', [''A'', ''D''])],
      fila_prioridade = [(1, ''D''), (6, ''B'')]\<rparr> :: string state"
  have s: "same_items ?s1 ?s2" by (simp add: same_items_def)
  from dijkstra_deterministic [of ?g "''A''" "dijkstra ?g ''A''" "dijkstra ?g ''A''"] s
  have 1: "while_loop ?g ?s1 = while_loop ?g ?s2" by blast
  from dijkstra_deterministic [of grafo_exemplo "''A''" "dijkstra grafo_exemplo ''A''"
      "dijkstra grafo_exemplo ''A''"]
  have 2: "dijkstra grafo_exemplo ''A'' = dijkstra grafo_exemplo ''A''" by blast
  from 1 2 s dijkstra_grafo_exemplo show ?thesis by (intro conjI) assumption+
qed

end
